theory Spec2Isabelle
  imports Complex_Main "HOL-Library.Word"
begin

unbundle bit_operations_syntax

section \<open>Color model\<close>

text \<open>
  The drawing canvas of \<^verbatim>\<open>src/components/DrawingCanvas.tsx\<close>. A color is the object
  \<^verbatim>\<open>{ r, g, b, a }\<close> that \<^verbatim>\<open>hexToRgba\<close> returns; a pixel read from the image data is
  the four-element array \<^verbatim>\<open>[r, g, b, a]\<close>. Channels are JavaScript numbers that hold
  integers here, so they are modelled as \<^typ>\<open>int\<close>.
\<close>

record RGBA =
  r :: int
  g :: int
  b :: int
  a :: int

type_synonym quad = "int \<times> int \<times> int \<times> int"

subsection \<open>32-bit integer operators of JavaScript\<close>

text \<open>
  The operators \<^verbatim>\<open>>>\<close>, \<^verbatim>\<open><<\<close>, \<^verbatim>\<open>&\<close> and \<^verbatim>\<open>|\<close> convert their operands with ToInt32
  (the value modulo \<open>2 ^ 32\<close>, read as two's complement) and give a signed 32-bit result.
\<close>

definition toInt32 :: "int \<Rightarrow> int" where
  "toInt32 n = (n + 2 ^ 31) mod 2 ^ 32 - 2 ^ 31"

definition js_sar :: "int \<Rightarrow> nat \<Rightarrow> int" where
  "js_sar x k = drop_bit (k mod 32) (toInt32 x)"

definition js_shl :: "int \<Rightarrow> nat \<Rightarrow> int" where
  "js_shl x k = toInt32 (push_bit (k mod 32) (toInt32 x))"

definition js_and :: "int \<Rightarrow> int \<Rightarrow> int" where
  "js_and x y = toInt32 x AND toInt32 y"

definition js_or :: "int \<Rightarrow> int \<Rightarrow> int" where
  "js_or x y = toInt32 x OR toInt32 y"

subsection \<open>Number.parseInt with radix 16\<close>

text \<open>
  A JavaScript number that \<^verbatim>\<open>Number.parseInt\<close> can return: \<open>NaN\<close> or an integer-valued
  double. \<open>Num n\<close> holds the double's exact value (\<open>-0\<close> is \<open>Num 0\<close>; ToInt32 gives
  \<open>0\<close> for both zeros).
\<close>

datatype jsnumber = NaN | Num int

definition hexDigitValue :: "char \<Rightarrow> nat option" where
  "hexDigitValue c =
     (let n = (of_char c :: nat) in
      if 48 \<le> n \<and> n \<le> 57 then Some (n - 48)
      else if 97 \<le> n \<and> n \<le> 102 then Some (n - 87)
      else if 65 \<le> n \<and> n \<le> 70 then Some (n - 55)
      else None)"

definition isHexDigit :: "char \<Rightarrow> bool" where
  "isHexDigit c = (hexDigitValue c \<noteq> None)"

text \<open>
  White space that \<^verbatim>\<open>parseInt\<close> skips at the start of the string: TAB, LF, VT, FF, CR,
  SP and NBSP. A \<^typ>\<open>char\<close> is a code unit below 256; the white space of Unicode beyond
  that range has no counterpart in \<^typ>\<open>string\<close>.
\<close>

definition isWhiteSpace :: "char \<Rightarrow> bool" where
  "isWhiteSpace c = ((of_char c :: nat) \<in> {9, 10, 11, 12, 13, 32, 160})"

fun bitLength :: "nat \<Rightarrow> nat" where
  "bitLength n = (if n = 0 then 0 else Suc (bitLength (n div 2)))"

text \<open>
  The double nearest to a natural number (round to nearest, ties to even, 53 significant
  bits). A value that rounds to \<open>2 ^ 1024\<close> or more is \<open>Infinity\<close> in JavaScript; it is
  kept as the rounded integer here, which is a multiple of \<open>2 ^ 32\<close>, and ToInt32 gives
  \<open>0\<close> for both.
\<close>

definition toFloat64 :: "nat \<Rightarrow> nat" where
  "toFloat64 n =
     (if n < 2 ^ 53 then n
      else let e = bitLength n - 53;
               q = n div 2 ^ e;
               rest = n mod 2 ^ e;
               half = 2 ^ (e - 1);
               q' = (if rest > half \<or> (rest = half \<and> odd q) then q + 1 else q)
           in q' * 2 ^ e)"

fun stripSign :: "string \<Rightarrow> int \<times> string" where
  "stripSign [] = (1, [])"
| "stripSign (c # cs) =
     (if c = CHR ''-'' then (-1, cs)
      else if c = CHR ''+'' then (1, cs)
      else (1, c # cs))"

fun stripPrefix0x :: "string \<Rightarrow> string" where
  "stripPrefix0x (c0 # c1 # cs) =
     (if c0 = CHR ''0'' \<and> (c1 = CHR ''x'' \<or> c1 = CHR ''X'') then cs else c0 # c1 # cs)"
| "stripPrefix0x cs = cs"

definition digitsValue :: "string \<Rightarrow> nat" where
  "digitsValue ds = foldl (\<lambda>acc c. 16 * acc + (case hexDigitValue c of Some d \<Rightarrow> d | None \<Rightarrow> 0)) 0 ds"

definition parseInt16 :: "string \<Rightarrow> jsnumber" where
  "parseInt16 s =
     (let (sign, s1) = stripSign (dropWhile isWhiteSpace s);
          z = takeWhile isHexDigit (stripPrefix0x s1)
      in if z = [] then NaN else Num (sign * int (toFloat64 (digitsValue z))))"

text \<open>ToInt32 of a number: \<open>NaN\<close> becomes \<open>0\<close>.\<close>

definition numberToInt :: "jsnumber \<Rightarrow> int" where
  "numberToInt v = (case v of NaN \<Rightarrow> 0 | Num n \<Rightarrow> n)"

subsection \<open>hexToRgba and colorsMatch\<close>

text \<open>\<^verbatim>\<open>hex.replace("#", "")\<close>: the first \<open>#\<close> is removed, wherever it stands.\<close>

fun removeFirstHash :: "string \<Rightarrow> string" where
  "removeFirstHash [] = []"
| "removeFirstHash (c # cs) = (if c = CHR ''#'' then cs else c # removeFirstHash cs)"

definition hexToRgba :: "string \<Rightarrow> RGBA" where
  "hexToRgba hex =
     (let normalized = removeFirstHash hex;
          bigint = numberToInt (parseInt16 normalized)
      in if length normalized = 3 then
           (let r0 = js_and (js_sar bigint 8) 15;
                g0 = js_and (js_sar bigint 4) 15;
                b0 = js_and bigint 15
            in \<lparr> r = js_or (js_shl r0 4) r0,
                 g = js_or (js_shl g0 4) g0,
                 b = js_or (js_shl b0 4) b0,
                 a = 255 \<rparr>)
         else
           \<lparr> r = js_and (js_sar bigint 16) 255,
             g = js_and (js_sar bigint 8) 255,
             b = js_and bigint 255,
             a = 255 \<rparr>)"

text \<open>
  \<^verbatim>\<open>colorsMatch(a, b, tolerance = 26)\<close>: the callers in the source never pass a tolerance,
  so every call of the model passes the default \<open>26\<close>.
\<close>

definition colorsMatch :: "quad \<Rightarrow> RGBA \<Rightarrow> int \<Rightarrow> bool" where
  "colorsMatch p c tolerance =
     (case p of (a0, a1, a2, a3) \<Rightarrow>
        \<bar>a0 - r c\<bar> \<le> tolerance \<and>
        \<bar>a1 - g c\<bar> \<le> tolerance \<and>
        \<bar>a2 - b c\<bar> \<le> tolerance \<and>
        \<bar>a3 - a c\<bar> \<le> tolerance)"

definition defaultTolerance :: int where
  "defaultTolerance = 26"

text \<open>The value of a hexadecimal digit as a channel value (\<open>0\<close> for any other character).\<close>

definition hexValue :: "char \<Rightarrow> int" where
  "hexValue c = (case hexDigitValue c of Some d \<Rightarrow> int d | None \<Rightarrow> 0)"

definition hexNat :: "char \<Rightarrow> nat" where
  "hexNat c = (case hexDigitValue c of Some d \<Rightarrow> d | None \<Rightarrow> 0)"

section \<open>Image data, canvas and 2D context\<close>

text \<open>
  \<^verbatim>\<open>ImageData\<close>: \<open>data\<close> is the \<^verbatim>\<open>Uint8ClampedArray\<close> of the pixels, row by row, four
  bytes (red, green, blue, alpha) per pixel. Image data that the browser hands out is
  \<open>wellFormed\<close>.
\<close>

record ImageData =
  data :: "int list"
  width :: nat
  height :: nat

definition wellFormed :: "ImageData \<Rightarrow> bool" where
  "wellFormed img = (length (data img) = 4 * (width img * height img))"

text \<open>
  Reading a typed array outside its range gives \<^verbatim>\<open>undefined\<close>; storing \<^verbatim>\<open>undefined\<close>
  in a byte array stores \<open>0\<close>, and a store outside the range is ignored (as
  \<^term>\<open>list_update\<close> does). A store into a \<^verbatim>\<open>Uint8ClampedArray\<close> clamps to \<open>0..255\<close>.
\<close>

definition byteAt :: "int list \<Rightarrow> nat \<Rightarrow> int" where
  "byteAt d i = (if i < length d then d ! i else 0)"

definition clampByte :: "int \<Rightarrow> int" where
  "clampByte v = max 0 (min 255 v)"

text \<open>
  The four array reads \<^verbatim>\<open>[data[o], data[o + 1], data[o + 2], data[o + 3]]\<close>; \<open>None\<close> when
  one of them is \<^verbatim>\<open>undefined\<close>.
\<close>

definition readPixel :: "int list \<Rightarrow> int \<Rightarrow> quad option" where
  "readPixel d off =
     (if 0 \<le> off \<and> nat off + 3 < length d
      then Some (d ! nat off, d ! (nat off + 1), d ! (nat off + 2), d ! (nat off + 3))
      else None)"

definition pixelAt :: "ImageData \<Rightarrow> int \<times> int \<Rightarrow> quad option" where
  "pixelAt img q = readPixel (data img) ((snd q * int (width img) + fst q) * 4)"

definition inBounds :: "nat \<Rightarrow> nat \<Rightarrow> int \<times> int \<Rightarrow> bool" where
  "inBounds w h q = (0 \<le> fst q \<and> fst q < int w \<and> 0 \<le> snd q \<and> snd q < int h)"

datatype compositeOperation = source_over | destination_out

datatype pathSegment =
    MoveTo real real
  | LineTo real real
  | EllipseArc real real real real real real real
  | ClosePath

text \<open>
  The drawing state that \<^verbatim>\<open>save()\<close> pushes and \<^verbatim>\<open>restore()\<close> pops, as far as the
  component sets it. Style strings and widths are stored as assigned; reading them is the
  rasterizer's business.
\<close>

record drawState =
  transform :: "real \<times> real \<times> real \<times> real \<times> real \<times> real"
  lineWidth :: real
  strokeStyle :: string
  fillStyle :: string
  globalCompositeOperation :: compositeOperation
  lineCap :: string
  lineJoin :: string

record context2d =
  current :: drawState
  savedStates :: "drawState list"
  path :: "pathSegment list"

definition defaultState :: drawState where
  "defaultState =
     \<lparr> transform = (1, 0, 0, 1, 0, 0), lineWidth = 1, strokeStyle = ''#000000'',
       fillStyle = ''#000000'', globalCompositeOperation = source_over,
       lineCap = ''butt'', lineJoin = ''miter'' \<rparr>"

definition defaultContext :: context2d where
  "defaultContext = \<lparr> current = defaultState, savedStates = [], path = [] \<rparr>"

definition ctxSave :: "context2d \<Rightarrow> context2d" where
  "ctxSave c = c\<lparr>savedStates := current c # savedStates c\<rparr>"

definition ctxRestore :: "context2d \<Rightarrow> context2d" where
  "ctxRestore c =
     (case savedStates c of [] \<Rightarrow> c | s # ss \<Rightarrow> c\<lparr>current := s, savedStates := ss\<rparr>)"

definition setTransformIdentity :: "context2d \<Rightarrow> context2d" where
  "setTransformIdentity c = c\<lparr>current := (current c)\<lparr>transform := (1, 0, 0, 1, 0, 0)\<rparr>\<rparr>"

definition ctxScale :: "real \<Rightarrow> real \<Rightarrow> context2d \<Rightarrow> context2d" where
  "ctxScale sx sy c =
     (case transform (current c) of (m11, m12, m21, m22, dx, dy) \<Rightarrow>
        c\<lparr>current := (current c)\<lparr>transform := (m11 * sx, m12 * sx, m21 * sy, m22 * sy, dx, dy)\<rparr>\<rparr>)"

definition setLineWidth :: "real \<Rightarrow> context2d \<Rightarrow> context2d" where
  "setLineWidth v c = c\<lparr>current := (current c)\<lparr>lineWidth := v\<rparr>\<rparr>"

definition setStrokeStyle :: "string \<Rightarrow> context2d \<Rightarrow> context2d" where
  "setStrokeStyle v c = c\<lparr>current := (current c)\<lparr>strokeStyle := v\<rparr>\<rparr>"

definition setFillStyle :: "string \<Rightarrow> context2d \<Rightarrow> context2d" where
  "setFillStyle v c = c\<lparr>current := (current c)\<lparr>fillStyle := v\<rparr>\<rparr>"

definition setComposite :: "compositeOperation \<Rightarrow> context2d \<Rightarrow> context2d" where
  "setComposite v c = c\<lparr>current := (current c)\<lparr>globalCompositeOperation := v\<rparr>\<rparr>"

definition setLineCapJoin :: "string \<Rightarrow> string \<Rightarrow> context2d \<Rightarrow> context2d" where
  "setLineCapJoin cap join c = c\<lparr>current := (current c)\<lparr>lineCap := cap, lineJoin := join\<rparr>\<rparr>"

definition beginPath :: "context2d \<Rightarrow> context2d" where
  "beginPath c = c\<lparr>path := []\<rparr>"

definition addSegment :: "pathSegment \<Rightarrow> context2d \<Rightarrow> context2d" where
  "addSegment seg c = c\<lparr>path := path c @ [seg]\<rparr>"

text \<open>
  The canvas element: its bitmap, the origin-clean flag of the bitmap, and the pointers
  it has captured. \<^verbatim>\<open>getImageData(0, 0, canvas.width, canvas.height)\<close> throws when the
  bitmap is not origin-clean or when the rectangle has no pixels; otherwise it returns a
  copy of the bitmap (the bitmap is taken to hold the bytes that \<^verbatim>\<open>putImageData\<close>
  stored; premultiplied storage is not modelled). The imperative handle of the component
  (\<^verbatim>\<open>toDataURL\<close>, \<^verbatim>\<open>loadFromDataURL\<close>) is not modelled; \<^verbatim>\<open>drawImage\<close> in
  \<^verbatim>\<open>loadFromDataURL\<close> is the one call of the component that can leave the bitmap not
  origin-clean, when the image comes from another origin.
\<close>

record canvasElement =
  bitmap :: ImageData
  originClean :: bool
  pointerCapture :: "nat set"

definition getImageData :: "canvasElement \<Rightarrow> ImageData option" where
  "getImageData cv =
     (if originClean cv \<and> 0 < width (bitmap cv) \<and> 0 < height (bitmap cv)
      then Some (bitmap cv) else None)"

text \<open>
  \<^verbatim>\<open>putImageData(img, 0, 0)\<close>: the pixels of \<open>img\<close> replace those of the bitmap where the
  two overlap; the transform and the composite operation play no part.
\<close>

definition putImageData :: "ImageData \<Rightarrow> ImageData \<Rightarrow> ImageData" where
  "putImageData img bm =
     bm\<lparr>data :=
        map (\<lambda>j. let px = j div 4; x = px mod width bm; y = px div width bm
                 in if x < width img \<and> y < height img
                    then byteAt (data img) ((y * width img + x) * 4 + j mod 4)
                    else byteAt (data bm) j)
            [0 ..< 4 * (width bm * height bm)]\<rparr>"

text \<open>
  \<^verbatim>\<open>clearRect(0, 0, canvas.width, canvas.height)\<close> under the identity transform: every
  pixel becomes transparent black.
\<close>

definition clearRect :: "ImageData \<Rightarrow> ImageData" where
  "clearRect bm = bm\<lparr>data := replicate (4 * (width bm * height bm)) 0\<rparr>"

text \<open>
  \<^verbatim>\<open>fillStyle = "#ffffff"; fillRect(0, 0, canvas.width, canvas.height)\<close> under the identity
  transform. The source color is opaque: with \<open>source-over\<close> it replaces every pixel,
  with \<open>destination-out\<close> it erases every pixel.
\<close>

definition fillRectWhite :: "compositeOperation \<Rightarrow> ImageData \<Rightarrow> ImageData" where
  "fillRectWhite op bm =
     (case op of
        source_over \<Rightarrow> bm\<lparr>data := replicate (4 * (width bm * height bm)) 255\<rparr>
      | destination_out \<Rightarrow> bm\<lparr>data := replicate (4 * (width bm * height bm)) 0\<rparr>)"

section \<open>The component\<close>

datatype DrawingTool = Pencil | Eraser | Line | Rectangle | Ellipse | Fill

record props =
  color :: string
  brushSize :: real
  tool :: DrawingTool
  clearSignal :: int
  undoSignal :: int

record pointerEvent =
  clientX :: real
  clientY :: real
  pointerId :: nat

text \<open>
  What the component takes from the browser and is not in its source: the rasterizer
  behind \<^verbatim>\<open>stroke()\<close> and \<^verbatim>\<open>strokeRect()\<close>, which gives the new bytes of the bitmap from
  the drawing state, the path and the bitmap (painting never changes the size of a
  bitmap), and the layout. \<open>toPixel\<close> is the body of
  \<^verbatim>\<open>getPixelCoordinates\<close>, \<^verbatim>\<open>Math.floor(point * canvas.size / rect.size)\<close> on both axes;
  \<open>containerWidth\<close> and \<open>containerHeight\<close> are \<^verbatim>\<open>rect.width * ratio\<close> and
  \<^verbatim>\<open>rect.height * ratio\<close> of the wrapper as the canvas stores them. This arithmetic is
  floating point and depends on the layout, so its results are inputs of the model.
\<close>

record browser =
  strokePath :: "drawState \<Rightarrow> pathSegment list \<Rightarrow> ImageData \<Rightarrow> int list"
  strokeRectangle :: "drawState \<Rightarrow> real \<Rightarrow> real \<Rightarrow> real \<Rightarrow> real \<Rightarrow> ImageData \<Rightarrow> int list"
  rectLeft :: real
  rectTop :: real
  toPixel :: "real \<times> real \<Rightarrow> int \<times> int"
  containerWidth :: nat
  containerHeight :: nat
  devicePixelRatio :: real
  supports2d :: bool

text \<open>
  The refs of the component. \<open>historyRef\<close> is \<^verbatim>\<open>historyRef.current\<close>, oldest snapshot first:
  \<^verbatim>\<open>push\<close> appends, \<^verbatim>\<open>pop\<close> takes the last element, \<^verbatim>\<open>shift\<close> drops the first.
\<close>

record engine =
  canvasRef :: "canvasElement option"
  contextRef :: "context2d option"
  isDrawingRef :: bool
  historyRef :: "ImageData list"
  shapeStartRef :: "(real \<times> real) option"
  shapeSnapshotRef :: "ImageData option"

text \<open>
  A handler either returns or ends with an exception that nobody catches; the refs keep
  what was done before the throw.
\<close>

datatype completion = Returned engine | Uncaught engine

fun engineOf :: "completion \<Rightarrow> engine" where
  "engineOf (Returned st) = st"
| "engineOf (Uncaught st) = st"

text \<open>A call on the context object, and a change of the canvas bitmap, inside the refs.\<close>

definition onContext :: "(context2d \<Rightarrow> context2d) \<Rightarrow> engine \<Rightarrow> engine" where
  "onContext f st = (case contextRef st of None \<Rightarrow> st | Some c \<Rightarrow> st\<lparr>contextRef := Some (f c)\<rparr>)"

definition onBitmap :: "(ImageData \<Rightarrow> ImageData) \<Rightarrow> engine \<Rightarrow> engine" where
  "onBitmap f st =
     (case canvasRef st of None \<Rightarrow> st | Some cv \<Rightarrow> st\<lparr>canvasRef := Some (cv\<lparr>bitmap := f (bitmap cv)\<rparr>)\<rparr>)"

definition ctxStroke :: "browser \<Rightarrow> engine \<Rightarrow> engine" where
  "ctxStroke br st =
     (case contextRef st of None \<Rightarrow> st
      | Some c \<Rightarrow> onBitmap (\<lambda>bm. bm\<lparr>data := strokePath br (current c) (path c) bm\<rparr>) st)"

definition ctxStrokeRect :: "browser \<Rightarrow> real \<Rightarrow> real \<Rightarrow> real \<Rightarrow> real \<Rightarrow> engine \<Rightarrow> engine" where
  "ctxStrokeRect br x y w h st =
     (case contextRef st of None \<Rightarrow> st
      | Some c \<Rightarrow> onBitmap (\<lambda>bm. bm\<lparr>data := strokeRectangle br (current c) x y w h bm\<rparr>) st)"

definition ctxFillRectWhite :: "engine \<Rightarrow> engine" where
  "ctxFillRectWhite st =
     (case contextRef st of None \<Rightarrow> st
      | Some c \<Rightarrow>
          onBitmap (fillRectWhite (globalCompositeOperation (current c)))
            (onContext (setFillStyle ''#ffffff'') st))"

subsection \<open>Effects: clear and undo\<close>

definition clearEffect :: "engine \<Rightarrow> engine" where
  "clearEffect st =
     (case (canvasRef st, contextRef st) of
        (Some cv, Some c) \<Rightarrow>
          (let st1 = onContext ctxSave st;
               st2 = onContext setTransformIdentity st1;
               st3 = onBitmap clearRect st2;
               st4 = ctxFillRectWhite st3;
               st5 = onContext ctxRestore st4
           in st5\<lparr>historyRef := []\<rparr>)
      | _ \<Rightarrow> st)"

definition undoEffect :: "props \<Rightarrow> engine \<Rightarrow> engine" where
  "undoEffect p st =
     (if undoSignal p = 0 then st
      else case (canvasRef st, contextRef st) of
        (Some cv, Some c) \<Rightarrow>
          (case rev (historyRef st) of
             [] \<Rightarrow> st
           | previous # older \<Rightarrow>
               (let st0 = st\<lparr>historyRef := rev older\<rparr>;
                    st1 = onContext ctxSave st0;
                    st2 = onContext setTransformIdentity st1;
                    st3 = onBitmap clearRect st2;
                    st4 = onBitmap (putImageData previous) st3
                in onContext ctxRestore st4))
      | _ \<Rightarrow> st)"

subsection \<open>Coordinates\<close>

definition getCanvasCoordinates :: "browser \<Rightarrow> pointerEvent \<Rightarrow> engine \<Rightarrow> (real \<times> real) option" where
  "getCanvasCoordinates br ev st =
     (case canvasRef st of None \<Rightarrow> None
      | Some cv \<Rightarrow> Some (clientX ev - rectLeft br, clientY ev - rectTop br))"

definition getPixelCoordinates :: "browser \<Rightarrow> real \<times> real \<Rightarrow> engine \<Rightarrow> (int \<times> int) option" where
  "getPixelCoordinates br point st =
     (case canvasRef st of None \<Rightarrow> None | Some cv \<Rightarrow> Some (toPixel br point))"

subsection \<open>Snapshots\<close>

definition stopDrawing :: "props \<Rightarrow> pointerEvent \<Rightarrow> engine \<Rightarrow> engine" where
  "stopDrawing p ev st =
     (case contextRef st of None \<Rightarrow> st
      | Some c \<Rightarrow>
          (let st1 = (if isDrawingRef st
                      then onContext (setComposite source_over)
                             (if tool p = Pencil \<or> tool p = Eraser
                              then onContext (addSegment ClosePath) st else st)
                      else st);
               st2 = st1\<lparr>isDrawingRef := False, shapeStartRef := None, shapeSnapshotRef := None\<rparr>
           in case canvasRef st2 of None \<Rightarrow> st2
              | Some cv \<Rightarrow>
                  if pointerId ev \<in> pointerCapture cv
                  then st2\<lparr>canvasRef := Some (cv\<lparr>pointerCapture := pointerCapture cv - {pointerId ev}\<rparr>)\<rparr>
                  else st2))"

text \<open>
  \<^verbatim>\<open>pushSnapshotForUndo(context, canvas)\<close>: the result is the pair of the refs afterwards
  and the snapshot, \<open>None\<close> for \<^verbatim>\<open>null\<close>. When \<^verbatim>\<open>getImageData\<close> throws, the \<^verbatim>\<open>catch\<close> is
  reached after \<^verbatim>\<open>save()\<close> and \<^verbatim>\<open>setTransform\<close> and before \<^verbatim>\<open>restore()\<close>.
\<close>

definition pushSnapshotForUndo :: "canvasElement \<Rightarrow> engine \<Rightarrow> engine \<times> ImageData option" where
  "pushSnapshotForUndo cv st =
     (let st1 = onContext ctxSave st;
          st2 = onContext setTransformIdentity st1
      in case getImageData cv of
           None \<Rightarrow> (st2, None)
         | Some snapshot \<Rightarrow>
             (let st3 = onContext ctxRestore st2;
                  hist = historyRef st3;
                  hist1 = (if length hist \<ge> 25 then tl hist else hist)
              in (st3\<lparr>historyRef := hist1 @ [snapshot]\<rparr>, Some snapshot)))"

definition restoreSnapshot :: "ImageData option \<Rightarrow> engine \<Rightarrow> engine" where
  "restoreSnapshot snapshot st =
     (case (canvasRef st, contextRef st, snapshot) of
        (Some cv, Some c, Some snap) \<Rightarrow>
          (let st1 = onContext ctxSave st;
               st2 = onContext setTransformIdentity st1;
               st3 = onBitmap clearRect st2;
               st4 = onBitmap (putImageData snap) st3
           in onContext ctxRestore st4)
      | _ \<Rightarrow> st)"

subsection \<open>Shape preview\<close>

definition drawPreviewShape :: "browser \<Rightarrow> props \<Rightarrow> real \<times> real \<Rightarrow> engine \<Rightarrow> engine" where
  "drawPreviewShape br p cur st =
     (case (canvasRef st, contextRef st, shapeStartRef st) of
        (Some cv, Some c, Some start) \<Rightarrow>
          (let st1 = restoreSnapshot (shapeSnapshotRef st) st;
               st2 = onContext (setLineWidth (brushSize p)) st1;
               st3 = onContext (setStrokeStyle (color p)) st2;
               st4 = onContext (setFillStyle (color p)) st3;
               st5 = onContext (setComposite source_over) st4;
               w = fst cur - fst start;
               h = snd cur - snd start
           in if tool p = Line then
                (let s1 = onContext beginPath st5;
                     s2 = onContext (addSegment (MoveTo (fst start) (snd start))) s1;
                     s3 = onContext (addSegment (LineTo (fst cur) (snd cur))) s2;
                     s4 = ctxStroke br s3
                 in onContext (addSegment ClosePath) s4)
              else if tool p = Rectangle then
                ctxStrokeRect br (fst start) (snd start) w h st5
              else if tool p = Ellipse then
                (let radiusX = \<bar>w\<bar> / 2;
                     radiusY = \<bar>h\<bar> / 2;
                     centerX = fst start + w / 2;
                     centerY = snd start + h / 2;
                     s1 = onContext beginPath st5;
                     s2 = onContext (addSegment (EllipseArc centerX centerY radiusX radiusY 0 0 (pi * 2))) s1;
                     s3 = ctxStroke br s2
                 in onContext (addSegment ClosePath) s3)
              else st5)
      | _ \<Rightarrow> st)"

subsection \<open>Flood fill\<close>

text \<open>
  \<^verbatim>\<open>setPixel\<close> and \<^verbatim>\<open>matchTarget\<close>, the two closures of \<^verbatim>\<open>floodFill\<close>, with the variables
  they capture as arguments. The target color has \<^verbatim>\<open>undefined\<close> channels when the seed
  offset lies outside the array (\<open>None\<close>); the differences are then \<open>NaN\<close> and every
  comparison of \<^verbatim>\<open>colorsMatch\<close> is false.
\<close>

definition setPixel :: "nat \<Rightarrow> RGBA \<Rightarrow> int list \<Rightarrow> int \<Rightarrow> int \<Rightarrow> int list" where
  "setPixel w fillColor d x y =
     (let offset = nat ((y * int w + x) * 4)
      in d[offset := clampByte (r fillColor),
           offset + 1 := clampByte (g fillColor),
           offset + 2 := clampByte (b fillColor),
           offset + 3 := clampByte (a fillColor)])"

definition colorsMatchUndef :: "quad option \<Rightarrow> RGBA option \<Rightarrow> bool" where
  "colorsMatchUndef px c =
     (case (px, c) of
        (Some q, Some c') \<Rightarrow> colorsMatch q c' defaultTolerance
      | _ \<Rightarrow> False)"

definition matchTarget :: "nat \<Rightarrow> int list \<Rightarrow> RGBA option \<Rightarrow> int \<Rightarrow> int \<Rightarrow> bool" where
  "matchTarget w d targetColorRgba x y =
     colorsMatchUndef (readPixel d ((y * int w + x) * 4)) targetColorRgba"

definition isVisited :: "nat list \<Rightarrow> nat \<Rightarrow> bool" where
  "isVisited visited idx = (idx < length visited \<and> visited ! idx \<noteq> 0)"

text \<open>
  The \<^verbatim>\<open>while (stack.length > 0)\<close> loop. The head of the list is the top of the stack, so
  the four pushes appear in reverse order. \<open>None\<close> is a loop that does not end.
\<close>

partial_function (option) floodLoop ::
  "nat \<Rightarrow> nat \<Rightarrow> RGBA option \<Rightarrow> RGBA \<Rightarrow> (int \<times> int) list \<Rightarrow> nat list \<Rightarrow> int list \<Rightarrow> int list option"
where
  "floodLoop w h target fillColor stack visited d =
     (case stack of
        [] \<Rightarrow> Some d
      | q # rest \<Rightarrow>
          (let x = fst q; y = snd q; idx = nat (y * int w + x)
           in if x < 0 \<or> x \<ge> int w \<or> y < 0 \<or> y \<ge> int h then
                floodLoop w h target fillColor rest visited d
              else if isVisited visited idx then
                floodLoop w h target fillColor rest visited d
              else if \<not> matchTarget w d target x y then
                floodLoop w h target fillColor rest visited d
              else
                floodLoop w h target fillColor
                  ((x, y - 1) # (x, y + 1) # (x - 1, y) # (x + 1, y) # rest)
                  (visited[idx := 1])
                  (setPixel w fillColor d x y)))"


definition rgbaOf :: "quad \<Rightarrow> RGBA" where
  "rgbaOf q = (case q of (c0, c1, c2, c3) \<Rightarrow> \<lparr> r = c0, g = c1, b = c2, a = c3 \<rparr>)"


definition floodFill :: "browser \<Rightarrow> props \<Rightarrow> real \<times> real \<Rightarrow> engine \<Rightarrow> completion option" where
  "floodFill br p start st =
     (case (canvasRef st, contextRef st) of
        (Some cv, Some c) \<Rightarrow>
          (case getPixelCoordinates br start st of
             None \<Rightarrow> Some (Returned st)
           | Some pixelPoint \<Rightarrow>
               (let st1 = onContext ctxSave st;
                    st2 = onContext setTransformIdentity st1
                in case getImageData cv of
                     None \<Rightarrow> Some (Uncaught st2)
                   | Some imageData \<Rightarrow>
                       (let targetOffset = (snd pixelPoint * int (width imageData) + fst pixelPoint) * 4;
                            targetColor = readPixel (data imageData) targetOffset;
                            targetColorRgba = map_option rgbaOf targetColor;
                            fillColor = hexToRgba (color p)
                        in if colorsMatchUndef targetColor (Some fillColor) then
                             Some (Returned (onContext ctxRestore st2))
                           else
                             (case floodLoop (width imageData) (height imageData) targetColorRgba fillColor
                                     [pixelPoint] (replicate (width imageData * height imageData) 0)
                                     (data imageData) of
                                None \<Rightarrow> None
                              | Some d \<Rightarrow>
                                  Some (Returned
                                    (onContext ctxRestore
                                       (onBitmap (putImageData (imageData\<lparr>data := d\<rparr>)) st2)))))))
      | _ \<Rightarrow> Some (Returned st))"

subsection \<open>Pointer handlers\<close>

definition setPointerCapture :: "nat \<Rightarrow> engine \<Rightarrow> engine" where
  "setPointerCapture pid st =
     (case canvasRef st of None \<Rightarrow> st
      | Some cv \<Rightarrow> st\<lparr>canvasRef := Some (cv\<lparr>pointerCapture := insert pid (pointerCapture cv)\<rparr>)\<rparr>)"

definition isShapeTool :: "DrawingTool \<Rightarrow> bool" where
  "isShapeTool t = (t = Line \<or> t = Rectangle \<or> t = Ellipse)"

definition handlePointerDown :: "browser \<Rightarrow> props \<Rightarrow> pointerEvent \<Rightarrow> engine \<Rightarrow> completion option" where
  "handlePointerDown br p ev st =
     (case (contextRef st, canvasRef st, getCanvasCoordinates br ev st) of
        (Some c, Some cv, Some point) \<Rightarrow>
          (let (st1, snapshot) = pushSnapshotForUndo cv st
           in if tool p = Fill then floodFill br p point st1
              else
                (let st2 = setPointerCapture (pointerId ev) st1;
                     st3 = st2\<lparr>isDrawingRef := True\<rparr>;
                     st4 = onContext (setLineWidth (brushSize p)) st3;
                     st5 = onContext (setStrokeStyle (color p)) st4;
                     st6 = onContext (setComposite
                             (if tool p = Eraser then destination_out else source_over)) st5
                 in if tool p = Pencil \<or> tool p = Eraser then
                      (let s1 = onContext beginPath st6;
                           s2 = onContext (addSegment (MoveTo (fst point) (snd point))) s1;
                           s3 = onContext (addSegment (LineTo (fst point) (snd point))) s2
                       in Some (Returned (ctxStroke br s3)))
                    else
                      Some (Returned
                        (drawPreviewShape br p point
                           (st6\<lparr>shapeStartRef := Some point, shapeSnapshotRef := snapshot\<rparr>)))))
      | _ \<Rightarrow> Some (Returned st))"



definition handlePointerLeave :: "props \<Rightarrow> pointerEvent \<Rightarrow> engine \<Rightarrow> engine" where
  "handlePointerLeave p ev st = stopDrawing p ev st"

definition handlePointerCancel :: "props \<Rightarrow> pointerEvent \<Rightarrow> engine \<Rightarrow> engine" where
  "handlePointerCancel p ev st = stopDrawing p ev st"

subsection \<open>Mounting, resizing and the order of the effects\<close>

text \<open>
  Assigning \<^verbatim>\<open>canvas.width\<close> or \<^verbatim>\<open>canvas.height\<close> replaces the bitmap by a transparent
  one of the new size and resets the context to its default state.
\<close>

definition setCanvasSize :: "nat \<Rightarrow> nat \<Rightarrow> canvasElement \<Rightarrow> canvasElement" where
  "setCanvasSize w h cv =
     cv\<lparr>bitmap := \<lparr> data = replicate (4 * (w * h)) 0, width = w, height = h \<rparr>,
        originClean := True\<rparr>"

definition resizeToContainer :: "browser \<Rightarrow> engine \<Rightarrow> engine" where
  "resizeToContainer br st =
     (case (canvasRef st, contextRef st) of
        (Some cv, Some c) \<Rightarrow>
          (let ratio = (if devicePixelRatio br = 0 then 1 else devicePixelRatio br);
               imageData = (if 0 < width (bitmap cv) \<and> 0 < height (bitmap cv)
                            then getImageData cv else None);
               st1 = st\<lparr>canvasRef := Some (setCanvasSize (containerWidth br) (containerHeight br) cv),
                        contextRef := Some defaultContext\<rparr>;
               st2 = onContext setTransformIdentity st1;
               st3 = onContext (ctxScale ratio ratio) st2;
               st4 = onContext (setLineCapJoin ''round'' ''round'') st3;
               st5 = onContext ctxSave st4;
               st6 = onContext setTransformIdentity st5;
               st7 = (case imageData of
                        Some img \<Rightarrow> onBitmap (putImageData img) st6
                      | None \<Rightarrow> ctxFillRectWhite st6)
           in onContext ctxRestore st7)
      | _ \<Rightarrow> st)"

text \<open>
  The first effect: it takes the 2D context of the canvas (\<^verbatim>\<open>null\<close> where the browser has
  none) and sizes the canvas. The wrapper element is there whenever the canvas is.
\<close>

definition setupEffect :: "browser \<Rightarrow> engine \<Rightarrow> engine" where
  "setupEffect br st =
     (case canvasRef st of
        None \<Rightarrow> st
      | Some cv \<Rightarrow>
          if \<not> supports2d br then st
          else resizeToContainer br (st\<lparr>contextRef := Some defaultContext\<rparr>))"

text \<open>
  React runs every effect after the first render, in the order of declaration, and after
  a later render those effects whose dependency changed. The refs before the first effect
  hold the canvas element and nothing else.
\<close>

definition initialRefs :: "canvasElement \<Rightarrow> engine" where
  "initialRefs cv =
     \<lparr> canvasRef = Some cv, contextRef = None, isDrawingRef = False, historyRef = [],
       shapeStartRef = None, shapeSnapshotRef = None \<rparr>"

definition mountEffects :: "browser \<Rightarrow> props \<Rightarrow> engine \<Rightarrow> engine" where
  "mountEffects br p st = undoEffect p (clearEffect (setupEffect br st))"

definition updateEffects :: "props \<Rightarrow> props \<Rightarrow> engine \<Rightarrow> engine" where
  "updateEffects prev p st =
     (let st1 = (if clearSignal p \<noteq> clearSignal prev then clearEffect st else st)
      in if undoSignal p \<noteq> undoSignal prev then undoEffect p st1 else st1)"

section \<open>Notions of the specification\<close>

text \<open>
  The pixels that are connected to the seed through steps to one of the four neighbours,
  over pixels of the image that match the target color under the tolerance.
\<close>

definition neighbours :: "int \<times> int \<Rightarrow> (int \<times> int) set" where
  "neighbours q = {(fst q + 1, snd q), (fst q - 1, snd q), (fst q, snd q + 1), (fst q, snd q - 1)}"

definition matchesTarget :: "ImageData \<Rightarrow> RGBA \<Rightarrow> int \<times> int \<Rightarrow> bool" where
  "matchesTarget img target q =
     (case pixelAt img q of None \<Rightarrow> False | Some px \<Rightarrow> colorsMatch px target defaultTolerance)"

inductive_set component :: "ImageData \<Rightarrow> RGBA \<Rightarrow> int \<times> int \<Rightarrow> (int \<times> int) set"
  for img :: ImageData and target :: RGBA and seed :: "int \<times> int"
where
  seed: "inBounds (width img) (height img) seed \<Longrightarrow> matchesTarget img target seed
         \<Longrightarrow> seed \<in> component img target seed"
| step: "q \<in> component img target seed \<Longrightarrow> q' \<in> neighbours q
         \<Longrightarrow> inBounds (width img) (height img) q' \<Longrightarrow> matchesTarget img target q'
         \<Longrightarrow> q' \<in> component img target seed"

text \<open>A sequence of snapshot pushes, the canvas being \<open>cv\<close> at the time of each push.\<close>

fun pushAll :: "canvasElement list \<Rightarrow> engine \<Rightarrow> engine" where
  "pushAll [] st = st"
| "pushAll (cv # cvs) st = pushAll cvs (fst (pushSnapshotForUndo cv st))"

text \<open>Undo signals \<open>1, 2, ...\<close> one after the other.\<close>

fun undoTimes :: "nat \<Rightarrow> props \<Rightarrow> engine \<Rightarrow> engine" where
  "undoTimes 0 p st = st"
| "undoTimes (Suc n) p st =
     undoTimes n (p\<lparr>undoSignal := undoSignal p + 1\<rparr>)
       (undoEffect (p\<lparr>undoSignal := undoSignal p + 1\<rparr>) st)"

subsection \<open>Example values\<close>

text \<open>Small concrete inputs on which the theorems below are instantiated.\<close>

definition grayPixel :: "int \<Rightarrow> ImageData" where
  "grayPixel v = \<lparr> data = [v, v, v, 255], width = 1, height = 1 \<rparr>"

definition exampleCanvas :: "ImageData \<Rightarrow> canvasElement" where
  "exampleCanvas bm = \<lparr> bitmap = bm, originClean = True, pointerCapture = {} \<rparr>"

definition exampleEngine :: "ImageData \<Rightarrow> ImageData list \<Rightarrow> engine" where
  "exampleEngine bm hist =
     \<lparr> canvasRef = Some (exampleCanvas bm), contextRef = Some defaultContext,
       isDrawingRef = False, historyRef = hist, shapeStartRef = None, shapeSnapshotRef = None \<rparr>"

definition exampleProps :: "DrawingTool \<Rightarrow> string \<Rightarrow> int \<Rightarrow> props" where
  "exampleProps t col undo =
     \<lparr> color = col, brushSize = 10, tool = t, clearSignal = 0, undoSignal = undo \<rparr>"



text \<open>
  One shape, from \<open>start\<close> to \<open>cur\<close>, stroked on a bitmap with the color and the width
  of the props, painting over what is there.
\<close>

definition shapeState :: "props \<Rightarrow> drawState \<Rightarrow> drawState" where
  "shapeState p ds =
     ds\<lparr>lineWidth := brushSize p, strokeStyle := color p, fillStyle := color p,
        globalCompositeOperation := source_over\<rparr>"

definition shapePath :: "DrawingTool \<Rightarrow> real \<times> real \<Rightarrow> real \<times> real \<Rightarrow> pathSegment list" where
  "shapePath t start cur =
     (if t = Line then [MoveTo (fst start) (snd start), LineTo (fst cur) (snd cur)]
      else [EllipseArc (fst start + (fst cur - fst start) / 2) (snd start + (snd cur - snd start) / 2)
              (\<bar>fst cur - fst start\<bar> / 2) (\<bar>snd cur - snd start\<bar> / 2) 0 0 (pi * 2)])"

definition strokeShape ::
  "browser \<Rightarrow> props \<Rightarrow> drawState \<Rightarrow> real \<times> real \<Rightarrow> real \<times> real \<Rightarrow> ImageData \<Rightarrow> ImageData" where
  "strokeShape br p ds start cur bm =
     (if tool p = Rectangle
      then bm\<lparr>data := strokeRectangle br (shapeState p ds) (fst start) (snd start)
                        (fst cur - fst start) (snd cur - snd start) bm\<rparr>
      else bm\<lparr>data := strokePath br (shapeState p ds) (shapePath (tool p) start cur) bm\<rparr>)"

definition eventPoint :: "browser \<Rightarrow> pointerEvent \<Rightarrow> real \<times> real" where
  "eventPoint br ev = (clientX ev - rectLeft br, clientY ev - rectTop br)"

subsection \<open>Notions of the flood-fill proof\<close>

text \<open>
  The index of a pixel in the \<^verbatim>\<open>visited\<close> array, the set of pixels that the array marks,
  the fill color as the byte array stores it, and the invariant of the loop: relative to
  the image \<open>img\<close> that the loop started from, the marked pixels lie in the component
  and hold the fill color, the others are untouched, every pixel of the component still
  to be painted is reachable from the stack, and the calls of \<^verbatim>\<open>setPixel\<close> so far are the
  marked pixels, each once.
\<close>

definition pixelIndex :: "nat \<Rightarrow> int \<times> int \<Rightarrow> nat" where
  "pixelIndex w q = nat (snd q * int w + fst q)"




text \<open>
  A rasterizer for the examples: it marks, in opaque black, the pixel under the end point
  of every line segment, under the center of every ellipse and under the far corner of
  a rectangle. The example layout has the canvas at the origin and one pixel per unit.
\<close>

definition markPixel :: "ImageData \<Rightarrow> int list \<Rightarrow> real \<Rightarrow> real \<Rightarrow> int list" where
  "markPixel bm d x y =
     (if inBounds (width bm) (height bm) (\<lfloor>x\<rfloor>, \<lfloor>y\<rfloor>)
      then setPixel (width bm) \<lparr> r = 0, g = 0, b = 0, a = 255 \<rparr> d \<lfloor>x\<rfloor> \<lfloor>y\<rfloor>
      else d)"

definition dotStroke :: "drawState \<Rightarrow> pathSegment list \<Rightarrow> ImageData \<Rightarrow> int list" where
  "dotStroke ds segs bm =
     foldl (\<lambda>d seg. case seg of
                LineTo x y \<Rightarrow> markPixel bm d x y
              | EllipseArc cx cy rx ry rot sa ea \<Rightarrow> markPixel bm d cx cy
              | _ \<Rightarrow> d) (data bm) segs"

definition dotStrokeRect :: "drawState \<Rightarrow> real \<Rightarrow> real \<Rightarrow> real \<Rightarrow> real \<Rightarrow> ImageData \<Rightarrow> int list" where
  "dotStrokeRect ds x y w h bm = markPixel bm (data bm) (x + w) (y + h)"

definition exampleBrowser :: browser where
  "exampleBrowser =
     \<lparr> strokePath = dotStroke, strokeRectangle = dotStrokeRect, rectLeft = 0, rectTop = 0,
       toPixel = (\<lambda>pt. (\<lfloor>fst pt\<rfloor>, \<lfloor>snd pt\<rfloor>)), containerWidth = 3, containerHeight = 1,
       devicePixelRatio = 1, supports2d = True \<rparr>"

definition threePixels :: ImageData where
  "threePixels = \<lparr> data = [255, 255, 255, 255, 250, 250, 250, 255, 0, 0, 0, 255], width = 3, height = 1 \<rparr>"

definition threePixelsFilled :: ImageData where
  "threePixelsFilled = \<lparr> data = [255, 0, 0, 255, 255, 0, 0, 255, 0, 0, 0, 255], width = 3, height = 1 \<rparr>"

subsection \<open>Notions of the gesture proofs\<close>

text \<open>
  An opaque white bitmap; the context after one preview frame; and the state in the
  middle of a shape gesture that started at \<open>start\<close> with the snapshot \<open>snap\<close> and
  whose latest preview went to \<open>cur\<close>: the bitmap is the snapshot with that one shape.
\<close>

definition whiteBitmap :: "nat \<Rightarrow> nat \<Rightarrow> ImageData" where
  "whiteBitmap w h = \<lparr> data = replicate (4 * (w * h)) 255, width = w, height = h \<rparr>"

definition shapeContext :: "browser \<Rightarrow> props \<Rightarrow> real \<times> real \<Rightarrow> real \<times> real \<Rightarrow> context2d \<Rightarrow> context2d" where
  "shapeContext br p start cur cx =
     cx\<lparr>current := shapeState p (current cx),
        path := (if tool p = Rectangle then path cx else shapePath (tool p) start cur @ [ClosePath])\<rparr>"


text \<open>
  More example values: a pointer event on the top row, a white and a black row of three
  pixels, and refs whose canvas is not origin-clean, so that its pixels cannot be read.
\<close>

definition pointerAt :: "real \<Rightarrow> pointerEvent" where
  "pointerAt x = \<lparr> clientX = x, clientY = 0, pointerId = 1 \<rparr>"

definition whiteRow :: ImageData where
  "whiteRow = \<lparr> data = [255, 255, 255, 255, 255, 255, 255, 255, 255, 255, 255, 255], width = 3, height = 1 \<rparr>"


definition taintedEngine :: "ImageData \<Rightarrow> engine" where
  "taintedEngine bm =
     \<lparr> canvasRef = Some ((exampleCanvas bm)\<lparr>originClean := False\<rparr>), contextRef = Some defaultContext,
       isDrawingRef = False, historyRef = [], shapeStartRef = None, shapeSnapshotRef = None \<rparr>"

section \<open>Verification: the color model\<close>

lemma hexValue_range: "0 \<le> hexValue c \<and> hexValue c < 16"
  by (auto simp: hexValue_def hexDigitValue_def Let_def)

lemma hexDigit_not_special:
  assumes "isHexDigit c"
  shows "c \<noteq> CHR ''#''" "\<not> isWhiteSpace c" "c \<noteq> CHR ''-''" "c \<noteq> CHR ''+''"
    "c \<noteq> CHR ''x''" "c \<noteq> CHR ''X''"
  using assms
  by (auto simp: isHexDigit_def hexDigitValue_def isWhiteSpace_def Let_def split: if_splits)

lemma removeFirstHash_digits: "list_all isHexDigit ds \<Longrightarrow> removeFirstHash ds = ds"
  by (induction ds) (auto dest: hexDigit_not_special(1))

lemma toInt32_small: "- (2 ^ 31) \<le> n \<Longrightarrow> n < 2 ^ 31 \<Longrightarrow> toInt32 n = n"
  unfolding toInt32_def by (simp add: mod_pos_pos_trivial)

lemma and_15: "(x::int) AND 15 = x mod 16"
  using take_bit_eq_mask [of 4 x] by (simp add: take_bit_eq_mod mask_eq_exp_minus_1)

lemma and_255: "(x::int) AND 255 = x mod 256"
  using take_bit_eq_mask [of 8 x] by (simp add: take_bit_eq_mod mask_eq_exp_minus_1)

lemma hexNat_lt: "hexNat c < 16"
  by (auto simp: hexNat_def hexDigitValue_def Let_def)

lemma hexValue_hexNat: "hexValue c = int (hexNat c)"
  by (simp add: hexValue_def hexNat_def split: option.splits)

lemma digitsValue3: "digitsValue [d0, d1, d2] = 256 * hexNat d0 + 16 * hexNat d1 + hexNat d2"
  by (simp add: digitsValue_def hexNat_def)

lemma digitsValue6:
  "digitsValue [d0, d1, d2, d3, d4, d5] =
     1048576 * hexNat d0 + 65536 * hexNat d1 + 4096 * hexNat d2 + 256 * hexNat d3
       + 16 * hexNat d4 + hexNat d5"
  by (simp add: digitsValue_def hexNat_def)

lemma toFloat64_small: "n < 2 ^ 53 \<Longrightarrow> toFloat64 n = n"
  by (simp add: toFloat64_def)

lemma parseInt16_3:
  assumes "isHexDigit d0" "isHexDigit d1" "isHexDigit d2"
  shows "parseInt16 [d0, d1, d2] = Num (256 * hexValue d0 + 16 * hexValue d1 + hexValue d2)"
proof -
  have lt: "256 * hexNat d0 + 16 * hexNat d1 + hexNat d2 < 2 ^ 53"
    using hexNat_lt [of d0] hexNat_lt [of d1] hexNat_lt [of d2] by simp
  have "parseInt16 [d0, d1, d2] = Num (int (toFloat64 (digitsValue [d0, d1, d2])))"
    using assms hexDigit_not_special [of d0] hexDigit_not_special [of d1]
    by (simp add: parseInt16_def)
  then show ?thesis
    by (simp add: digitsValue3 toFloat64_small [OF lt] hexValue_hexNat)
qed

lemma parseInt16_6:
  assumes "isHexDigit d0" "isHexDigit d1" "isHexDigit d2"
    and "isHexDigit d3" "isHexDigit d4" "isHexDigit d5"
  shows "parseInt16 [d0, d1, d2, d3, d4, d5] =
     Num (1048576 * hexValue d0 + 65536 * hexValue d1 + 4096 * hexValue d2 + 256 * hexValue d3
            + 16 * hexValue d4 + hexValue d5)"
proof -
  have lt: "1048576 * hexNat d0 + 65536 * hexNat d1 + 4096 * hexNat d2 + 256 * hexNat d3
              + 16 * hexNat d4 + hexNat d5 < 2 ^ 53"
    using hexNat_lt [of d0] hexNat_lt [of d1] hexNat_lt [of d2]
      hexNat_lt [of d3] hexNat_lt [of d4] hexNat_lt [of d5]
    by simp
  have "parseInt16 [d0, d1, d2, d3, d4, d5] =
          Num (int (toFloat64 (digitsValue [d0, d1, d2, d3, d4, d5])))"
    using assms hexDigit_not_special [of d0] hexDigit_not_special [of d1]
    by (simp add: parseInt16_def)
  then show ?thesis
    by (simp add: digitsValue6 toFloat64_small [OF lt] hexValue_hexNat)
qed

lemma nibble_cases:
  assumes "0 \<le> v" "v < (16::int)"
  shows "v = 0 \<or> v = 1 \<or> v = 2 \<or> v = 3 \<or> v = 4 \<or> v = 5 \<or> v = 6 \<or> v = 7 \<or> v = 8 \<or> v = 9
       \<or> v = 10 \<or> v = 11 \<or> v = 12 \<or> v = 13 \<or> v = 14 \<or> v = 15"
  using assms by presburger

lemma nibble_expand:
  assumes "0 \<le> v" "v < 16"
  shows "js_or (js_shl v 4) v = push_bit 4 v OR v" and "push_bit 4 v OR v = 17 * v"
proof -
  show "push_bit 4 v OR v = 17 * v"
    using nibble_cases [OF assms] by (elim disjE) simp_all
  show "js_or (js_shl v 4) v = push_bit 4 v OR v"
    using assms by (simp add: js_or_def js_shl_def toInt32_small push_bit_eq_mult)
qed

lemma divmod_digit:
  fixes q d m :: int
  assumes "0 \<le> d" "d < m"
  shows "(m * q + d) div m = q" and "(m * q + d) mod m = d"
  using assms by (simp_all add: div_pos_pos_trivial mod_pos_pos_trivial)

lemma nibbles3:
  assumes "0 \<le> v0" "v0 < 16" "0 \<le> v1" "v1 < 16" "0 \<le> v2" "v2 < (16::int)"
  shows "js_and (js_sar (256 * v0 + 16 * v1 + v2) 8) 15 = v0"
    and "js_and (js_sar (256 * v0 + 16 * v1 + v2) 4) 15 = v1"
    and "js_and (256 * v0 + 16 * v1 + v2) 15 = v2"
proof -
  let ?n = "256 * v0 + 16 * v1 + v2"
  have n1: "?n = 256 * v0 + (16 * v1 + v2)" and n2: "?n = 16 * (16 * v0 + v1) + v2"
    by simp_all
  have "?n div 256 = v0"
    unfolding n1 using assms by (intro divmod_digit) simp_all
  moreover have "?n div 16 = 16 * v0 + v1"
    unfolding n2 using assms by (intro divmod_digit) simp_all
  moreover have "(16 * v0 + v1) mod 16 = v1"
    using assms by (intro divmod_digit) simp_all
  moreover have "?n mod 16 = v2"
    unfolding n2 using assms by (intro divmod_digit) simp_all
  moreover have "v0 mod 16 = v0" using assms by simp
  moreover have "- (2 ^ 31) \<le> ?n" "?n < 2 ^ 31" using assms by simp_all
  ultimately show "js_and (js_sar ?n 8) 15 = v0"
    and "js_and (js_sar ?n 4) 15 = v1"
    and "js_and ?n 15 = v2"
    by (simp_all add: js_and_def js_sar_def toInt32_small and_15 drop_bit_eq_div)
qed

lemma bytes6:
  assumes "0 \<le> v0" "v0 < 16" "0 \<le> v1" "v1 < 16" "0 \<le> v2" "v2 < (16::int)"
     "0 \<le> v3" "v3 < 16" "0 \<le> v4" "v4 < 16" "0 \<le> v5" "v5 < (16::int)"
  defines "n \<equiv> 1048576 * v0 + 65536 * v1 + 4096 * v2 + 256 * v3 + 16 * v4 + v5"
  shows "js_and (js_sar n 16) 255 = 16 * v0 + v1"
    and "js_and (js_sar n 8) 255 = 16 * v2 + v3"
    and "js_and n 255 = 16 * v4 + v5"
proof -
  let ?hi = "16 * v0 + v1" and ?mid = "16 * v2 + v3" and ?lo = "16 * v4 + v5"
  have n1: "n = 65536 * ?hi + (256 * ?mid + ?lo)"
    and n2: "n = 256 * (256 * ?hi + ?mid) + ?lo" by (simp_all add: n_def)
  have "n div 65536 = ?hi"
    unfolding n1 using assms(1-12) by (intro divmod_digit) simp_all
  moreover have "?hi mod 256 = ?hi" using assms(1-12) by (simp add: mod_pos_pos_trivial)
  moreover have "n div 256 = 256 * ?hi + ?mid"
    unfolding n2 using assms(1-12) by (intro divmod_digit) simp_all
  moreover have "(256 * ?hi + ?mid) mod 256 = ?mid"
    using assms(1-12) by (intro divmod_digit) simp_all
  moreover have "n mod 256 = ?lo"
    unfolding n2 using assms(1-12) by (intro divmod_digit) simp_all
  moreover have "- (2 ^ 31) \<le> n" "n < 2 ^ 31" using assms(1-12) unfolding n_def by simp_all
  ultimately show "js_and (js_sar n 16) 255 = 16 * v0 + v1"
    and "js_and (js_sar n 8) 255 = 16 * v2 + v3"
    and "js_and n 255 = 16 * v4 + v5"
    by (simp_all add: js_and_def js_sar_def toInt32_small and_255 drop_bit_eq_div)
qed

lemma hexToRgba_3:
  assumes "isHexDigit d0" "isHexDigit d1" "isHexDigit d2"
  shows "hexToRgba [d0, d1, d2] =
    \<lparr> r = push_bit 4 (hexValue d0) OR hexValue d0,
      g = push_bit 4 (hexValue d1) OR hexValue d1,
      b = push_bit 4 (hexValue d2) OR hexValue d2, a = 255 \<rparr>"
proof -
  have "removeFirstHash [d0, d1, d2] = [d0, d1, d2]"
    using assms by (intro removeFirstHash_digits) simp
  then show ?thesis
    using hexValue_range [of d0] hexValue_range [of d1] hexValue_range [of d2]
    by (simp add: hexToRgba_def parseInt16_3 [OF assms] numberToInt_def nibbles3
          nibble_expand(1) Let_def)
qed

lemma hexToRgba_6:
  assumes "isHexDigit d0" "isHexDigit d1" "isHexDigit d2"
    and "isHexDigit d3" "isHexDigit d4" "isHexDigit d5"
  shows "hexToRgba [d0, d1, d2, d3, d4, d5] =
    \<lparr> r = 16 * hexValue d0 + hexValue d1,
      g = 16 * hexValue d2 + hexValue d3,
      b = 16 * hexValue d4 + hexValue d5, a = 255 \<rparr>"
proof -
  have "removeFirstHash [d0, d1, d2, d3, d4, d5] = [d0, d1, d2, d3, d4, d5]"
    using assms by (intro removeFirstHash_digits) simp
  then show ?thesis
    using hexValue_range [of d0] hexValue_range [of d1] hexValue_range [of d2]
      hexValue_range [of d3] hexValue_range [of d4] hexValue_range [of d5]
    by (simp add: hexToRgba_def parseInt16_6 [OF assms] numberToInt_def bytes6 Let_def)
qed

lemma hexToRgba_hash:
  assumes "list_all isHexDigit ds"
  shows "hexToRgba (CHR ''#'' # ds) = hexToRgba ds"
  using assms by (simp add: hexToRgba_def removeFirstHash_digits)

lemma js_and_15_range: "0 \<le> js_and x 15 \<and> js_and x 15 < 16"
proof -
  have "toInt32 15 = 15" by (simp add: toInt32_small)
  then show ?thesis by (simp add: js_and_def and_15)
qed

lemma js_and_255_range: "0 \<le> js_and x 255 \<and> js_and x 255 \<le> 255"
proof -
  have "toInt32 255 = 255" by (simp add: toInt32_small)
  then have "js_and x 255 = toInt32 x mod 256" by (simp add: js_and_def and_255)
  moreover have "0 \<le> toInt32 x mod 256" "toInt32 x mod 256 < 256" by simp_all
  ultimately show ?thesis by simp
qed

lemma nibble_byte_range:
  assumes "0 \<le> v" "v < 16"
  shows "0 \<le> js_or (js_shl v 4) v \<and> js_or (js_shl v 4) v \<le> 255"
  using assms nibble_expand [OF assms] by simp

lemma hexToRgba_range:
  "0 \<le> r (hexToRgba s) \<and> r (hexToRgba s) \<le> 255 \<and>
   0 \<le> g (hexToRgba s) \<and> g (hexToRgba s) \<le> 255 \<and>
   0 \<le> b (hexToRgba s) \<and> b (hexToRgba s) \<le> 255 \<and>
   a (hexToRgba s) = 255"
proof -
  define n where "n = numberToInt (parseInt16 (removeFirstHash s))"
  show ?thesis
  proof (cases "length (removeFirstHash s) = 3")
    case True
    have "hexToRgba s =
        \<lparr> r = js_or (js_shl (js_and (js_sar n 8) 15) 4) (js_and (js_sar n 8) 15),
          g = js_or (js_shl (js_and (js_sar n 4) 15) 4) (js_and (js_sar n 4) 15),
          b = js_or (js_shl (js_and n 15) 4) (js_and n 15),
          a = 255 \<rparr>"
      using True by (simp add: hexToRgba_def Let_def n_def)
    then show ?thesis
      using nibble_byte_range [of "js_and (js_sar n 8) 15"]
        nibble_byte_range [of "js_and (js_sar n 4) 15"]
        nibble_byte_range [of "js_and n 15"]
        js_and_15_range [of "js_sar n 8"] js_and_15_range [of "js_sar n 4"] js_and_15_range [of n]
      by simp
  next
    case False
    have "hexToRgba s =
        \<lparr> r = js_and (js_sar n 16) 255, g = js_and (js_sar n 8) 255, b = js_and n 255, a = 255 \<rparr>"
      using False by (simp add: hexToRgba_def Let_def n_def)
    then show ?thesis
      using js_and_255_range [of "js_sar n 16"] js_and_255_range [of "js_sar n 8"]
        js_and_255_range [of n]
      by simp
  qed
qed

text \<open>
  \<^bold>\<open>C5.\<close> \<open>colorsMatch(a, b, tolerance)\<close> is true exactly when the absolute difference of
  every channel, alpha included, is at most the tolerance, and the default tolerance is
  26; it is symmetric in the two colors, and for a tolerance of at least 0 every color
  matches itself.
\<close>

theorem colorsMatch_iff_symmetric_reflexive:
  "(colorsMatch (a0, a1, a2, a3) c t \<longleftrightarrow>
      \<bar>a0 - r c\<bar> \<le> t \<and> \<bar>a1 - g c\<bar> \<le> t \<and> \<bar>a2 - b c\<bar> \<le> t \<and> \<bar>a3 - a c\<bar> \<le> t)
   \<and> defaultTolerance = 26
   \<and> colorsMatch (a0, a1, a2, a3) \<lparr> r = b0, g = b1, b = b2, a = b3 \<rparr> t
       = colorsMatch (b0, b1, b2, b3) \<lparr> r = a0, g = a1, b = a2, a = a3 \<rparr> t
   \<and> (0 \<le> t \<longrightarrow> colorsMatch (a0, a1, a2, a3) \<lparr> r = a0, g = a1, b = a2, a = a3 \<rparr> t)"
proof -
  have swap: "\<bar>x - y\<bar> = \<bar>y - x\<bar>" for x y :: int
    by (rule abs_minus_commute)
  have "colorsMatch (a0, a1, a2, a3) \<lparr> r = b0, g = b1, b = b2, a = b3 \<rparr> t
       = colorsMatch (b0, b1, b2, b3) \<lparr> r = a0, g = a1, b = a2, a = a3 \<rparr> t"
    by (simp add: colorsMatch_def swap [of a0 b0] swap [of a1 b1] swap [of a2 b2] swap [of a3 b3])
  then show ?thesis
    by (simp add: colorsMatch_def defaultTolerance_def)
qed

theorem colorsMatch_iff_symmetric_reflexive_witness:
  "(0::int) \<le> 26 \<and> colorsMatch (34, 211, 238, 255) \<lparr> r = 34, g = 211, b = 238, a = 255 \<rparr> 26"
proof -
  have h: "(0::int) \<le> 26" by simp
  have "(0::int) \<le> 26 \<longrightarrow> colorsMatch (34, 211, 238, 255) \<lparr> r = 34, g = 211, b = 238, a = 255 \<rparr> 26"
    using colorsMatch_iff_symmetric_reflexive
      [of 34 211 238 255 "\<lparr> r = 34, g = 211, b = 238, a = 255 \<rparr>" 26 34 211 238 255]
    by blast
  then show ?thesis using h by blast
qed

text \<open>
  \<^bold>\<open>C6.\<close> For a string of three or six hexadecimal digits, with or without a leading
  \<open>#\<close>, \<open>hexToRgba\<close> returns channels between 0 and 255 and alpha 255; three digits
  give for each digit \<open>d\<close> the byte \<open>(d << 4) | d\<close>, six digits give the bytes of the
  three consecutive pairs as red, green and blue.
\<close>

theorem hexToRgba_hex_forms:
  assumes "list_all isHexDigit ds" and "hex = ds \<or> hex = CHR ''#'' # ds"
  shows "(length ds = 3 \<longrightarrow>
            hexToRgba hex =
              \<lparr> r = push_bit 4 (hexValue (ds ! 0)) OR hexValue (ds ! 0),
                g = push_bit 4 (hexValue (ds ! 1)) OR hexValue (ds ! 1),
                b = push_bit 4 (hexValue (ds ! 2)) OR hexValue (ds ! 2), a = 255 \<rparr>)
       \<and> (length ds = 6 \<longrightarrow>
            hexToRgba hex =
              \<lparr> r = 16 * hexValue (ds ! 0) + hexValue (ds ! 1),
                g = 16 * hexValue (ds ! 2) + hexValue (ds ! 3),
                b = 16 * hexValue (ds ! 4) + hexValue (ds ! 5), a = 255 \<rparr>)
       \<and> (length ds = 3 \<or> length ds = 6 \<longrightarrow>
            a (hexToRgba hex) = 255
            \<and> 0 \<le> r (hexToRgba hex) \<and> r (hexToRgba hex) \<le> 255
            \<and> 0 \<le> g (hexToRgba hex) \<and> g (hexToRgba hex) \<le> 255
            \<and> 0 \<le> b (hexToRgba hex) \<and> b (hexToRgba hex) \<le> 255)"
proof -
  have same: "hexToRgba hex = hexToRgba ds"
    using assms hexToRgba_hash by auto
  have three: "hexToRgba ds =
              \<lparr> r = push_bit 4 (hexValue (ds ! 0)) OR hexValue (ds ! 0),
                g = push_bit 4 (hexValue (ds ! 1)) OR hexValue (ds ! 1),
                b = push_bit 4 (hexValue (ds ! 2)) OR hexValue (ds ! 2), a = 255 \<rparr>"
    if "length ds = 3"
  proof -
    have "length ds = Suc (Suc (Suc 0))" using that by simp
    then obtain d0 d1 d2 where ds: "ds = [d0, d1, d2]"
      by (auto simp: length_Suc_conv)
    show ?thesis using assms(1) unfolding ds by (simp add: hexToRgba_3)
  qed
  have six: "hexToRgba ds =
              \<lparr> r = 16 * hexValue (ds ! 0) + hexValue (ds ! 1),
                g = 16 * hexValue (ds ! 2) + hexValue (ds ! 3),
                b = 16 * hexValue (ds ! 4) + hexValue (ds ! 5), a = 255 \<rparr>"
    if "length ds = 6"
  proof -
    have "length ds = Suc (Suc (Suc (Suc (Suc (Suc 0)))))" using that by simp
    then obtain d0 d1 d2 d3 d4 d5 where ds: "ds = [d0, d1, d2, d3, d4, d5]"
      by (auto simp: length_Suc_conv)
    show ?thesis using assms(1) unfolding ds by (simp add: hexToRgba_6)
  qed
  show ?thesis
    using three six hexToRgba_range [of hex] by (simp add: same)
qed

theorem hexToRgba_hex_forms_witness:
  "list_all isHexDigit ''aBc'' \<and> list_all isHexDigit ''22d3ee''
   \<and> hexToRgba ''#aBc'' = \<lparr> r = 170, g = 187, b = 204, a = 255 \<rparr>
   \<and> hexToRgba ''22d3ee'' = \<lparr> r = 34, g = 211, b = 238, a = 255 \<rparr>"
proof -
  have h3: "list_all isHexDigit ''aBc''" and h6: "list_all isHexDigit ''22d3ee''"
    by (simp_all add: isHexDigit_def hexDigitValue_def)
  show ?thesis
    using h3 h6 hexToRgba_hex_forms [OF h3, of "''#aBc''"] hexToRgba_hex_forms [OF h6, of "''22d3ee''"]
    by (simp add: hexValue_def hexDigitValue_def)
qed

section \<open>Verification: undo history\<close>

lemma onContext_fields [simp]:
  "canvasRef (onContext f st) = canvasRef st"
  "contextRef (onContext f st) = map_option f (contextRef st)"
  "historyRef (onContext f st) = historyRef st"
  "isDrawingRef (onContext f st) = isDrawingRef st"
  "shapeStartRef (onContext f st) = shapeStartRef st"
  "shapeSnapshotRef (onContext f st) = shapeSnapshotRef st"
  by (simp_all add: onContext_def split: option.splits)

lemma onBitmap_fields [simp]:
  "canvasRef (onBitmap f st) = map_option (\<lambda>cv. cv\<lparr>bitmap := f (bitmap cv)\<rparr>) (canvasRef st)"
  "contextRef (onBitmap f st) = contextRef st"
  "historyRef (onBitmap f st) = historyRef st"
  "isDrawingRef (onBitmap f st) = isDrawingRef st"
  "shapeStartRef (onBitmap f st) = shapeStartRef st"
  "shapeSnapshotRef (onBitmap f st) = shapeSnapshotRef st"
  by (simp_all add: onBitmap_def split: option.splits)

lemma save_restore [simp]:
  "ctxRestore (setTransformIdentity (ctxSave c)) = c"
  "ctxRestore (ctxSave c) = c"
  by (simp_all add: ctxRestore_def setTransformIdentity_def ctxSave_def)

lemma engine_eqI:
  "canvasRef s = canvasRef t \<Longrightarrow> contextRef s = contextRef t \<Longrightarrow> isDrawingRef s = isDrawingRef t
   \<Longrightarrow> historyRef s = historyRef t \<Longrightarrow> shapeStartRef s = shapeStartRef t
   \<Longrightarrow> shapeSnapshotRef s = shapeSnapshotRef t \<Longrightarrow> s = (t::engine)"
  by simp

lemma putImageData_same_size:
  assumes "wellFormed img" "width bm = width img" "height bm = height img"
  shows "putImageData img bm = img"
proof -
  let ?n = "4 * (width img * height img)"
  have "map (\<lambda>j. let px = j div 4; x = px mod width img; y = px div width img
                 in if x < width img \<and> y < height img
                    then byteAt (data img) ((y * width img + x) * 4 + j mod 4)
                    else byteAt (data bm) j) [0 ..< ?n] = data img"
  proof (rule nth_equalityI)
    show "length (map (\<lambda>j. let px = j div 4; x = px mod width img; y = px div width img
                 in if x < width img \<and> y < height img
                    then byteAt (data img) ((y * width img + x) * 4 + j mod 4)
                    else byteAt (data bm) j) [0 ..< ?n]) = length (data img)"
      using assms(1) by (simp add: wellFormed_def)
  next
    fix j assume "j < length (map (\<lambda>j. let px = j div 4; x = px mod width img; y = px div width img
                 in if x < width img \<and> y < height img
                    then byteAt (data img) ((y * width img + x) * 4 + j mod 4)
                    else byteAt (data bm) j) [0 ..< ?n])"
    then have j: "j < ?n" by simp
    then have px: "j div 4 < width img * height img" by simp
    then have w: "0 < width img" by (cases "width img") simp_all
    have x: "(j div 4) mod width img < width img" using w by simp
    have y: "(j div 4) div width img < height img"
      using px by (simp add: less_mult_imp_div_less mult.commute)
    have recompose: "((j div 4) div width img * width img + (j div 4) mod width img) * 4 + j mod 4 = j"
      by simp
    show "map (\<lambda>j. let px = j div 4; x = px mod width img; y = px div width img
                 in if x < width img \<and> y < height img
                    then byteAt (data img) ((y * width img + x) * 4 + j mod 4)
                    else byteAt (data bm) j) [0 ..< ?n] ! j = data img ! j"
      using j x y recompose assms(1) by (simp add: Let_def byteAt_def wellFormed_def)
  qed
  then show ?thesis
    using assms(2,3) by (simp add: putImageData_def)
qed

lemma undoEffect_empty:
  "historyRef st = [] \<Longrightarrow> undoEffect p st = st"
  by (simp add: undoEffect_def split: option.splits)

lemma undoEffect_pop:
  assumes "undoSignal p \<noteq> 0" "canvasRef st = Some cv" "contextRef st = Some c"
    and "historyRef st = older @ [previous]"
  shows "undoEffect p st =
     st\<lparr>historyRef := older, canvasRef := Some (cv\<lparr>bitmap := putImageData previous (clearRect (bitmap cv))\<rparr>)\<rparr>"
  using assms by (intro engine_eqI) (simp_all add: undoEffect_def Let_def)


lemma pixel_index:
  fixes X Y w h k :: nat
  assumes "X < w" "Y < h" "k < 4"
  shows "(Y * w + X) * 4 + k < 4 * (w * h)"
    and "((Y * w + X) * 4 + k) div 4 = Y * w + X"
    and "((Y * w + X) * 4 + k) mod 4 = k"
    and "(Y * w + X) mod w = X"
    and "(Y * w + X) div w = Y"
proof -
  have "Y * w + X < Y * w + w" using assms(1) by simp
  also have "\<dots> = (Y + 1) * w" by simp
  also have "\<dots> \<le> h * w" using assms(2) by (intro mult_le_mono1) simp
  finally have "Y * w + X < w * h" by (simp add: mult.commute)
  then show "(Y * w + X) * 4 + k < 4 * (w * h)" using assms(3) by simp
  show "((Y * w + X) * 4 + k) div 4 = Y * w + X" using assms(3) by simp
  show "((Y * w + X) * 4 + k) mod 4 = k" using assms(3) by (metis mod_mult_self3 mod_less)
  show "(Y * w + X) mod w = X" using assms(1) by simp
  show "(Y * w + X) div w = Y" using assms(1) by simp
qed

lemma inBounds_nat:
  assumes "inBounds w h q"
  obtains X Y where "q = (int X, int Y)" "X < w" "Y < h"
proof -
  have "q = (int (nat (fst q)), int (nat (snd q)))" "nat (fst q) < w" "nat (snd q) < h"
    using assms by (auto simp: inBounds_def)
  then show ?thesis using that by blast
qed

lemma inBounds_int [simp]: "inBounds w h (int X, int Y) \<longleftrightarrow> X < w \<and> Y < h"
  by (simp add: inBounds_def)

lemma pixelAt_nat:
  "pixelAt img (int X, int Y) = readPixel (data img) (int ((Y * width img + X) * 4))"
  by (simp add: pixelAt_def)

lemma readPixel_nat:
  "readPixel d (int n) = (if n + 3 < length d then Some (d ! n, d ! (n + 1), d ! (n + 2), d ! (n + 3)) else None)"
  by (simp add: readPixel_def)

lemma putImageData_size [simp]:
  "width (putImageData img bm) = width bm" "height (putImageData img bm) = height bm"
  "length (data (putImageData img bm)) = 4 * (width bm * height bm)"
  by (simp_all add: putImageData_def)

lemma clearRect_size [simp]:
  "width (clearRect bm) = width bm" "height (clearRect bm) = height bm"
  "length (data (clearRect bm)) = 4 * (width bm * height bm)"
  by (simp_all add: clearRect_def)

lemma putImageData_nth:
  assumes "X < width bm" "Y < height bm" "k < 4"
  shows "data (putImageData img bm) ! ((Y * width bm + X) * 4 + k) =
     (if X < width img \<and> Y < height img
      then byteAt (data img) ((Y * width img + X) * 4 + k)
      else byteAt (data bm) ((Y * width bm + X) * 4 + k))"
  using pixel_index [OF assms]
  by (simp add: putImageData_def Let_def)

lemma pixelAt_putImageData_clear:
  assumes "inBounds (width bm) (height bm) q" "wellFormed img"
  shows "pixelAt (putImageData img (clearRect bm)) q =
     (if inBounds (width img) (height img) q then pixelAt img q else Some (0, 0, 0, 0))"
proof -
  obtain X Y where q: "q = (int X, int Y)" and X: "X < width bm" and Y: "Y < height bm"
    using assms(1) by (rule inBounds_nat)
  define n where "n = (Y * width bm + X) * 4"
  define m where "m = (Y * width img + X) * 4"
  define new where "new = data (putImageData img (clearRect bm))"
  have n: "n + k < 4 * (width bm * height bm)" if "k < 4" for k
    using pixel_index(1) [OF X Y that] by (simp add: n_def)
  have nth: "new ! (n + k) = (if X < width img \<and> Y < height img then byteAt (data img) (m + k) else 0)"
    if "k < 4" for k
    using putImageData_nth [of X "clearRect bm" Y k img] X Y that n [OF that]
    unfolding n_def m_def new_def by (simp add: byteAt_def) (simp add: clearRect_def)
  have lhs: "pixelAt (putImageData img (clearRect bm)) q =
     Some (new ! (n + 0), new ! (n + 1), new ! (n + 2), new ! (n + 3))"
    using n [of 3] unfolding q pixelAt_nat readPixel_nat by (simp add: n_def new_def)
  show ?thesis
  proof (cases "X < width img \<and> Y < height img")
    case True
    have len: "m + k < length (data img)" if "k < 4" for k
      using pixel_index(1) [of X "width img" Y "height img" k] True that assms(2)
      by (simp add: wellFormed_def m_def)
    have "pixelAt img q = Some (data img ! (m + 0), data img ! (m + 1), data img ! (m + 2), data img ! (m + 3))"
      using len [of 3] unfolding q pixelAt_nat readPixel_nat by (simp add: m_def)
    then show ?thesis
      unfolding lhs using True len [of 0] len [of 1] len [of 2] len [of 3]
        nth [of 0] nth [of 1] nth [of 2] nth [of 3]
      by (simp add: byteAt_def q)
  next
    case False
    have "\<not> inBounds (width img) (height img) q" using False by (simp add: q)
    moreover have z: "new ! (n + k) = 0" if "k < 4" for k using nth [OF that] False by simp
    ultimately show ?thesis
      unfolding lhs using z [of 0] z [of 1] z [of 2] z [of 3] by simp
  qed
qed



lemma pushSnapshot_history:
  "historyRef (fst (pushSnapshotForUndo cv st)) =
     (case getImageData cv of None \<Rightarrow> historyRef st
      | Some snapshot \<Rightarrow> (if length (historyRef st) \<ge> 25 then tl (historyRef st) else historyRef st) @ [snapshot])"
  by (simp add: pushSnapshotForUndo_def Let_def split: option.splits)

lemma pushSnapshot_bounded:
  "length (historyRef st) \<le> 25 \<Longrightarrow> length (historyRef (fst (pushSnapshotForUndo cv st))) \<le> 25"
  by (simp add: pushSnapshot_history split: option.splits)

lemma pushAll_bounded:
  "length (historyRef st) \<le> 25 \<Longrightarrow> length (historyRef (pushAll cvs st)) \<le> 25"
  by (induction cvs arbitrary: st) (simp_all add: pushSnapshot_bounded)

lemma last25_step:
  assumes "length hist \<le> 25"
  shows "(if length hist \<ge> 25 then tl hist else hist) @ [s] = drop (length (hist @ [s]) - 25) (hist @ [s])"
  using assms by (cases hist) (auto simp: le_Suc_eq)

lemma drop_drop_append:
  fixes xs ys :: "'a list"
  shows "drop (length (drop (length xs - n) xs @ ys) - n) (drop (length xs - n) xs @ ys) = drop (length (xs @ ys) - n) (xs @ ys)"
proof (cases "length xs \<le> n")
  case True
  then show ?thesis by simp
next
  case False
  then have n: "n < length xs" by simp
  have "drop (length xs + length ys - n) (xs @ ys) = drop (length ys) (drop (length xs - n) (xs @ ys))"
    using n by (simp add: add.commute)
  then show ?thesis using n by simp
qed

lemma pushAll_history:
  assumes "length (historyRef st) \<le> 25" "\<forall>cv \<in> set cvs. getImageData cv \<noteq> None"
  shows "historyRef (pushAll cvs st) =
     drop (length (historyRef st @ map bitmap cvs) - 25) (historyRef st @ map bitmap cvs)"
  using assms
proof (induction cvs arbitrary: st)
  case Nil
  then show ?case by simp
next
  case (Cons cv cvs)
  obtain snapshot where snap: "getImageData cv = Some snapshot" "snapshot = bitmap cv"
    using Cons.prems(2) by (auto simp: getImageData_def split: if_splits)
  let ?st1 = "fst (pushSnapshotForUndo cv st)"
  have h1: "historyRef ?st1 = drop (length (historyRef st @ [bitmap cv]) - 25) (historyRef st @ [bitmap cv])"
    using last25_step [OF Cons.prems(1)] snap by (simp add: pushSnapshot_history)
  have "historyRef (pushAll (cv # cvs) st) = historyRef (pushAll cvs ?st1)" by simp
  also have "\<dots> = drop (length (historyRef ?st1 @ map bitmap cvs) - 25) (historyRef ?st1 @ map bitmap cvs)"
    using Cons.prems by (intro Cons.IH) (simp_all add: pushSnapshot_bounded)
  also have "\<dots> = drop (length ((historyRef st @ [bitmap cv]) @ map bitmap cvs) - 25) ((historyRef st @ [bitmap cv]) @ map bitmap cvs)"
    unfolding h1 by (rule drop_drop_append)
  finally show ?case by simp
qed

lemma undoEffect_history:
  assumes "undoSignal p \<noteq> 0" "canvasRef st \<noteq> None" "contextRef st \<noteq> None"
  shows "historyRef (undoEffect p st) = butlast (historyRef st)
    \<and> canvasRef (undoEffect p st) \<noteq> None \<and> contextRef (undoEffect p st) \<noteq> None"
proof -
  obtain cv c where cc: "canvasRef st = Some cv" "contextRef st = Some c"
    using assms by auto
  show ?thesis
  proof (cases "historyRef st" rule: rev_cases)
    case Nil
    then show ?thesis using cc by (simp add: undoEffect_empty)
  next
    case (snoc older previous)
    show ?thesis
      using cc by (simp add: undoEffect_pop [OF assms(1) cc snoc] snoc)
  qed
qed

lemma undoTimes_history:
  assumes "0 \<le> undoSignal p" "canvasRef st \<noteq> None" "contextRef st \<noteq> None"
  shows "historyRef (undoTimes n p st) = take (length (historyRef st) - n) (historyRef st)"
  using assms
proof (induction n arbitrary: p st)
  case 0
  then show ?case by simp
next
  case (Suc n)
  let ?p = "p\<lparr>undoSignal := undoSignal p + 1\<rparr>"
  have nz: "undoSignal ?p \<noteq> 0" and nn: "0 \<le> undoSignal ?p" using Suc.prems(1) by simp_all
  have u: "historyRef (undoEffect ?p st) = butlast (historyRef st)"
    "canvasRef (undoEffect ?p st) \<noteq> None" "contextRef (undoEffect ?p st) \<noteq> None"
    using undoEffect_history [OF nz Suc.prems(2,3)] by simp_all
  have "historyRef (undoTimes (Suc n) p st) = historyRef (undoTimes n ?p (undoEffect ?p st))"
    by simp
  also have "\<dots> = take (length (butlast (historyRef st)) - n) (butlast (historyRef st))"
    using Suc.IH [OF nn u(2,3)] by (simp add: u(1))
  also have "\<dots> = take (length (historyRef st) - Suc n) (historyRef st)"
    by (simp add: butlast_conv_take min_def)
  finally show ?case .
qed

text \<open>
  \<^bold>\<open>C2.\<close> Whatever snapshots are pushed, the undo history never holds more than 25
  entries; a push on a full history first discards the oldest entry, so after the pushes
  the history holds the last 25 snapshots that were captured, in order, and after 30
  pushes on an empty history the last 25 of the 30; undo removes the most recent entry
  and writes it on the canvas, so repeated undo walks the history from its end until it
  is empty.
\<close>

theorem history_bounded_fifo_lifo:
  assumes "length (historyRef st) \<le> 25"
  shows "length (historyRef (pushAll cvs st)) \<le> 25
    \<and> ((\<forall>cv \<in> set cvs. getImageData cv \<noteq> None) \<longrightarrow>
          historyRef (pushAll cvs st) =
            drop (length (historyRef st @ map bitmap cvs) - 25) (historyRef st @ map bitmap cvs))
    \<and> ((\<forall>cv \<in> set cvs. getImageData cv \<noteq> None) \<and> historyRef st = [] \<and> length cvs = 30 \<longrightarrow>
          historyRef (pushAll cvs st) = map bitmap (drop 5 cvs))
    \<and> (\<forall>cv c older previous.
          undoSignal p \<noteq> 0 \<and> canvasRef st = Some cv \<and> contextRef st = Some c
            \<and> historyRef st = older @ [previous] \<longrightarrow>
          undoEffect p st =
            st\<lparr>historyRef := older,
               canvasRef := Some (cv\<lparr>bitmap := putImageData previous (clearRect (bitmap cv))\<rparr>)\<rparr>)
    \<and> (0 \<le> undoSignal p \<and> canvasRef st \<noteq> None \<and> contextRef st \<noteq> None \<longrightarrow>
          historyRef (undoTimes n p st) = take (length (historyRef st) - n) (historyRef st))"
proof -
  have last25: "historyRef (pushAll cvs st) =
            drop (length (historyRef st @ map bitmap cvs) - 25) (historyRef st @ map bitmap cvs)"
    if "\<forall>cv \<in> set cvs. getImageData cv \<noteq> None"
    using assms that by (rule pushAll_history)
  have thirty: "historyRef (pushAll cvs st) = map bitmap (drop 5 cvs)"
    if "\<forall>cv \<in> set cvs. getImageData cv \<noteq> None" "historyRef st = []" "length cvs = 30"
    using last25 [OF that(1)] that(2,3) by (simp add: drop_map)
  show ?thesis
    using pushAll_bounded [OF assms] last25 thirty undoEffect_pop undoTimes_history
    by blast
qed

theorem history_bounded_fifo_lifo_witness:
  "length (historyRef (exampleEngine (grayPixel 0) [])) \<le> 25
   \<and> historyRef (pushAll (map (\<lambda>i. exampleCanvas (grayPixel (int i))) [1 ..< 31])
         (exampleEngine (grayPixel 0) []))
       = map (\<lambda>i. grayPixel (int i)) [6 ..< 31]
   \<and> historyRef (undoTimes 25 (exampleProps Pencil ''#000000'' 0)
         (exampleEngine (grayPixel 0) (map (\<lambda>i. grayPixel (int i)) [6 ..< 31]))) = []
   \<and> undoEffect (exampleProps Pencil ''#000000'' 1) (exampleEngine (grayPixel 0) [grayPixel 7, grayPixel 8])
       = exampleEngine (grayPixel 8) [grayPixel 7]"
proof -
  let ?p0 = "exampleProps Pencil ''#000000'' 0" and ?p1 = "exampleProps Pencil ''#000000'' 1"
  let ?st = "exampleEngine (grayPixel 0) []"
  let ?cvs = "map (\<lambda>i. exampleCanvas (grayPixel (int i))) [1 ..< 31]"
  have h: "length (historyRef ?st) \<le> 25" by (simp add: exampleEngine_def)
  have readable: "\<forall>cv \<in> set ?cvs. getImageData cv \<noteq> None"
    by (simp add: getImageData_def exampleCanvas_def grayPixel_def)
  have "(\<forall>cv \<in> set ?cvs. getImageData cv \<noteq> None) \<and> historyRef ?st = [] \<and> length ?cvs = 30 \<longrightarrow>
          historyRef (pushAll ?cvs ?st) = map bitmap (drop 5 ?cvs)"
    using history_bounded_fifo_lifo [OF h, of ?cvs ?p0 0] by blast
  moreover have "historyRef ?st = []" "length ?cvs = 30" by (simp_all add: exampleEngine_def)
  ultimately have "historyRef (pushAll ?cvs ?st) = map bitmap (drop 5 ?cvs)"
    using readable by blast
  also have "drop 5 ?cvs = map (\<lambda>i. exampleCanvas (grayPixel (int i))) [6 ..< 31]"
    by (simp add: drop_map)
  finally have pushes: "historyRef (pushAll ?cvs ?st) = map (\<lambda>i. grayPixel (int i)) [6 ..< 31]"
    by (simp add: exampleCanvas_def comp_def)
  let ?full = "exampleEngine (grayPixel 0) (map (\<lambda>i. grayPixel (int i)) [6 ..< 31])"
  have h2: "length (historyRef ?full) \<le> 25" by (simp add: exampleEngine_def)
  have "0 \<le> undoSignal ?p0 \<and> canvasRef ?full \<noteq> None \<and> contextRef ?full \<noteq> None \<longrightarrow>
          historyRef (undoTimes 25 ?p0 ?full) = take (length (historyRef ?full) - 25) (historyRef ?full)"
    using history_bounded_fifo_lifo [OF h2, of "[]" ?p0 25] by blast
  then have undos: "historyRef (undoTimes 25 ?p0 ?full) = []"
    by (simp add: exampleEngine_def exampleProps_def)
  let ?two = "exampleEngine (grayPixel 0) [grayPixel 7, grayPixel 8]"
  have h3: "length (historyRef ?two) \<le> 25" by (simp add: exampleEngine_def)
  have "\<forall>cv c older previous.
          undoSignal ?p1 \<noteq> 0 \<and> canvasRef ?two = Some cv \<and> contextRef ?two = Some c
            \<and> historyRef ?two = older @ [previous] \<longrightarrow>
          undoEffect ?p1 ?two =
            ?two\<lparr>historyRef := older,
               canvasRef := Some (cv\<lparr>bitmap := putImageData previous (clearRect (bitmap cv))\<rparr>)\<rparr>"
    using history_bounded_fifo_lifo [OF h3, of "[]" ?p1 0] by blast
  then have "undoSignal ?p1 \<noteq> 0 \<and> canvasRef ?two = Some (exampleCanvas (grayPixel 0))
            \<and> contextRef ?two = Some defaultContext
            \<and> historyRef ?two = [grayPixel 7] @ [grayPixel 8] \<longrightarrow>
          undoEffect ?p1 ?two =
            ?two\<lparr>historyRef := [grayPixel 7],
               canvasRef := Some ((exampleCanvas (grayPixel 0))\<lparr>bitmap :=
                  putImageData (grayPixel 8) (clearRect (bitmap (exampleCanvas (grayPixel 0))))\<rparr>)\<rparr>"
    by blast
  moreover have "putImageData (grayPixel 8) (clearRect (bitmap (exampleCanvas (grayPixel 0)))) = grayPixel 8"
    by (intro putImageData_same_size) (simp_all add: wellFormed_def grayPixel_def exampleCanvas_def)
  ultimately have one: "undoEffect ?p1 ?two = exampleEngine (grayPixel 8) [grayPixel 7]"
    by (simp add: exampleEngine_def exampleCanvas_def exampleProps_def)
  show ?thesis
    using h pushes undos one by blast
qed

text \<open>
  \<^bold>\<open>C4.\<close> With a canvas and a context, an undo signal other than 0 on a non-empty
  history removes the most recent snapshot from the history and replaces the whole
  bitmap: every pixel inside the snapshot's extent takes the snapshot's value, every
  other pixel becomes transparent, and when the snapshot has the size of the canvas the
  bitmap is the snapshot. On an empty history, undo leaves the bitmap, the history and
  everything else as they are.
\<close>

theorem undo_pops_and_restores:
  assumes "undoSignal p \<noteq> 0" "canvasRef st = Some cv" "contextRef st = Some c"
  shows "(historyRef st = [] \<longrightarrow> undoEffect p st = st)
       \<and> (\<forall>older previous. historyRef st = older @ [previous] \<and> wellFormed previous \<longrightarrow>
            (\<exists>bm. undoEffect p st = st\<lparr>historyRef := older, canvasRef := Some (cv\<lparr>bitmap := bm\<rparr>)\<rparr>
               \<and> width bm = width (bitmap cv) \<and> height bm = height (bitmap cv)
               \<and> (\<forall>q. inBounds (width bm) (height bm) q \<longrightarrow>
                     pixelAt bm q = (if inBounds (width previous) (height previous) q
                                     then pixelAt previous q else Some (0, 0, 0, 0)))
               \<and> (width previous = width (bitmap cv) \<and> height previous = height (bitmap cv)
                     \<longrightarrow> bm = previous)))"
proof (intro conjI allI impI)
  show "undoEffect p st = st" if "historyRef st = []"
    using that by (rule undoEffect_empty)
next
  fix older previous
  assume h: "historyRef st = older @ [previous] \<and> wellFormed previous"
  let ?bm = "putImageData previous (clearRect (bitmap cv))"
  have "undoEffect p st = st\<lparr>historyRef := older, canvasRef := Some (cv\<lparr>bitmap := ?bm\<rparr>)\<rparr>"
    using assms h by (intro undoEffect_pop) simp_all
  moreover have "\<forall>q. inBounds (width ?bm) (height ?bm) q \<longrightarrow>
       pixelAt ?bm q = (if inBounds (width previous) (height previous) q
                                     then pixelAt previous q else Some (0, 0, 0, 0))"
    using h by (simp add: pixelAt_putImageData_clear)
  moreover have "width previous = width (bitmap cv) \<and> height previous = height (bitmap cv) \<longrightarrow> ?bm = previous"
    using h by (simp add: putImageData_same_size)
  ultimately show "\<exists>bm. undoEffect p st = st\<lparr>historyRef := older, canvasRef := Some (cv\<lparr>bitmap := bm\<rparr>)\<rparr>
               \<and> width bm = width (bitmap cv) \<and> height bm = height (bitmap cv)
               \<and> (\<forall>q. inBounds (width bm) (height bm) q \<longrightarrow>
                     pixelAt bm q = (if inBounds (width previous) (height previous) q
                                     then pixelAt previous q else Some (0, 0, 0, 0)))
               \<and> (width previous = width (bitmap cv) \<and> height previous = height (bitmap cv)
                     \<longrightarrow> bm = previous)"
    by (intro exI [of _ ?bm]) simp
qed

theorem undo_pops_and_restores_witness:
  "undoSignal (exampleProps Pencil ''#000000'' 1) \<noteq> 0
   \<and> undoEffect (exampleProps Pencil ''#000000'' 1) (exampleEngine (grayPixel 0) [grayPixel 8])
       = exampleEngine (grayPixel 8) []
   \<and> undoEffect (exampleProps Pencil ''#000000'' 1) (exampleEngine (grayPixel 0) [])
       = exampleEngine (grayPixel 0) []"
proof -
  let ?p1 = "exampleProps Pencil ''#000000'' 1"
  let ?one = "exampleEngine (grayPixel 0) [grayPixel 8]"
  let ?none = "exampleEngine (grayPixel 0) []"
  have s: "undoSignal ?p1 \<noteq> 0" by (simp add: exampleProps_def)
  have cv: "canvasRef ?one = Some (exampleCanvas (grayPixel 0))" "canvasRef ?none = Some (exampleCanvas (grayPixel 0))"
    and c: "contextRef ?one = Some defaultContext" "contextRef ?none = Some defaultContext"
    by (simp_all add: exampleEngine_def)
  have "historyRef ?one = [] @ [grayPixel 8] \<and> wellFormed (grayPixel 8)"
    by (simp add: exampleEngine_def wellFormed_def grayPixel_def)
  then obtain bm where bm: "undoEffect ?p1 ?one =
        ?one\<lparr>historyRef := [], canvasRef := Some ((exampleCanvas (grayPixel 0))\<lparr>bitmap := bm\<rparr>)\<rparr>"
      "width (grayPixel 8) = width (bitmap (exampleCanvas (grayPixel 0)))
         \<and> height (grayPixel 8) = height (bitmap (exampleCanvas (grayPixel 0))) \<longrightarrow> bm = grayPixel 8"
    using undo_pops_and_restores [OF s cv(1) c(1)] by blast
  then have "bm = grayPixel 8" by (simp add: grayPixel_def exampleCanvas_def)
  then have one: "undoEffect ?p1 ?one = exampleEngine (grayPixel 8) []"
    using bm(1) by (simp add: exampleEngine_def exampleCanvas_def)
  have "historyRef ?none = []" by (simp add: exampleEngine_def)
  then have none: "undoEffect ?p1 ?none = ?none"
    using undo_pops_and_restores [OF s cv(2) c(2)] by blast
  show ?thesis using s one none by blast
qed

section \<open>Verification: flood fill\<close>

lemma pixelIndex_nat [simp]: "pixelIndex w (int X, int Y) = Y * w + X"
  by (simp add: pixelIndex_def nat_add_distrib nat_mult_distrib)

lemma pixelIndex_less:
  assumes "inBounds w h q"
  shows "pixelIndex w q < w * h"
proof -
  obtain X Y where q: "q = (int X, int Y)" "X < w" "Y < h"
    using assms by (rule inBounds_nat)
  show ?thesis
    using pixel_index(1) [OF q(2,3), of 0] by (simp add: q(1))
qed





lemma length_setPixel [simp]: "length (setPixel w F d x y) = length d"
  by (simp add: setPixel_def Let_def)


lemma floodLoop_Nil: "floodLoop w h t F [] vis d = Some d"
  by (subst floodLoop.simps) simp

lemma floodLoop_skip:
  assumes "\<not> inBounds w h q \<or> isVisited vis (pixelIndex w q) \<or> \<not> matchTarget w d t (fst q) (snd q)"
  shows "floodLoop w h t F (q # rest) vis d = floodLoop w h t F rest vis d"
  using assms by (subst floodLoop.simps) (auto simp: Let_def inBounds_def pixelIndex_def)

lemma floodLoop_paint:
  assumes "inBounds w h q" "\<not> isVisited vis (pixelIndex w q)" "matchTarget w d t (fst q) (snd q)"
  shows "floodLoop w h t F (q # rest) vis d =
     floodLoop w h t F ((fst q, snd q - 1) # (fst q, snd q + 1) # (fst q - 1, snd q) # (fst q + 1, snd q) # rest)
       (vis[pixelIndex w q := 1]) (setPixel w F d (fst q) (snd q))"
  using assms by (subst floodLoop.simps) (auto simp: Let_def inBounds_def pixelIndex_def)




lemma zeros_update:
  "i < length vis \<Longrightarrow> vis ! i = 0 \<Longrightarrow>
     Suc (length (filter (\<lambda>v. v = 0) (vis[i := Suc 0]))) = length (filter (\<lambda>v. v = (0::nat)) vis)"
proof (induction vis arbitrary: i)
  case Nil
  then show ?case by simp
next
  case (Cons v vis)
  then show ?case by (cases i) simp_all
qed

lemma floodLoop_terminates:
  assumes "w * h \<le> length vis"
  shows "\<exists>d'. floodLoop w h t F stack vis d = Some d'"
  using assms
proof (induction "5 * length (filter (\<lambda>v. v = 0) vis) + length stack"
         arbitrary: stack vis d rule: less_induct)
  case less
  show ?case
  proof (cases stack)
    case Nil
    then show ?thesis by (simp add: floodLoop_Nil)
  next
    case (Cons q rest)
    show ?thesis
    proof (cases "inBounds w h q \<and> \<not> isVisited vis (pixelIndex w q) \<and> matchTarget w d t (fst q) (snd q)")
      case False
      then have "floodLoop w h t F stack vis d = floodLoop w h t F rest vis d"
        unfolding Cons by (intro floodLoop_skip) blast
      moreover have "\<exists>d'. floodLoop w h t F rest vis d = Some d'"
        using less.prems by (intro less.hyps) (simp_all add: Cons)
      ultimately show ?thesis by simp
    next
      case True
      let ?stack = "(fst q, snd q - 1) # (fst q, snd q + 1) # (fst q - 1, snd q) # (fst q + 1, snd q) # rest"
      let ?vis = "vis[pixelIndex w q := 1]"
      have idx: "pixelIndex w q < length vis"
        using pixelIndex_less [of w h q] True less.prems by simp
      then have zero: "vis ! pixelIndex w q = 0" using True by (simp add: isVisited_def)
      have "floodLoop w h t F stack vis d = floodLoop w h t F ?stack ?vis (setPixel w F d (fst q) (snd q))"
        unfolding Cons using True by (intro floodLoop_paint) simp_all
      moreover have "\<exists>d'. floodLoop w h t F ?stack ?vis (setPixel w F d (fst q) (snd q)) = Some d'"
        using less.prems zeros_update [OF idx zero] by (intro less.hyps) (simp_all add: Cons)
      ultimately show ?thesis by simp
    qed
  qed
qed


















lemma floodFill_unfold:
  assumes st: "canvasRef st = Some cv" "contextRef st = Some c"
    and cv: "originClean cv" "inBounds (width (bitmap cv)) (height (bitmap cv)) (toPixel br start)"
    and tq: "pixelAt (bitmap cv) (toPixel br start) = Some tq"
  shows "floodFill br p start st =
     (if colorsMatch tq (hexToRgba (color p)) defaultTolerance then Some (Returned st)
      else case floodLoop (width (bitmap cv)) (height (bitmap cv)) (Some (rgbaOf tq)) (hexToRgba (color p))
                  [toPixel br start] (replicate (width (bitmap cv) * height (bitmap cv)) 0)
                  (data (bitmap cv)) of
             None \<Rightarrow> None
           | Some d \<Rightarrow> Some (Returned (st\<lparr>canvasRef :=
               Some (cv\<lparr>bitmap := putImageData ((bitmap cv)\<lparr>data := d\<rparr>) (bitmap cv)\<rparr>)\<rparr>)))"
proof -
  have pos: "0 < width (bitmap cv)" "0 < height (bitmap cv)"
    using cv(2) by (auto simp: inBounds_def)
  have g: "getImageData cv = Some (bitmap cv)"
    using cv(1) pos by (simp add: getImageData_def)
  have restore: "onContext ctxRestore (onContext setTransformIdentity (onContext ctxSave st)) = st"
    using st by (intro engine_eqI) simp_all
  have restore2: "onContext ctxRestore (onBitmap f (onContext setTransformIdentity (onContext ctxSave st)))
       = st\<lparr>canvasRef := Some (cv\<lparr>bitmap := f (bitmap cv)\<rparr>)\<rparr>" for f
    using st by (intro engine_eqI) simp_all
  have t: "readPixel (data (bitmap cv))
             ((snd (toPixel br start) * int (width (bitmap cv)) + fst (toPixel br start)) * 4) = Some tq"
    using tq by (simp add: pixelAt_def)
  show ?thesis
    using st g t
    by (simp add: floodFill_def getPixelCoordinates_def Let_def colorsMatchUndef_def restore restore2
          split: option.splits)
qed


lemma floodFill_matching:
  assumes st: "canvasRef st = Some cv" "contextRef st = Some c"
    and cv: "originClean cv"
    and seed: "toPixel br start = seed" "inBounds (width (bitmap cv)) (height (bitmap cv)) seed"
    and tq: "pixelAt (bitmap cv) seed = Some tq"
    and same: "colorsMatch tq (hexToRgba (color p)) defaultTolerance"
  shows "floodFill br p start st = Some (Returned st)"
  using floodFill_unfold [OF st cv(1), of br start tq p] seed tq same by simp


lemma hexToRgba_red: "hexToRgba ''#ff0000'' = \<lparr> r = 255, g = 0, b = 0, a = 255 \<rparr>"
proof -
  have d: "list_all isHexDigit ''ff0000''" by (simp add: isHexDigit_def hexDigitValue_def)
  then have "hexToRgba ''ff0000'' = \<lparr> r = 255, g = 0, b = 0, a = 255 \<rparr>"
    by (simp add: hexToRgba_6 hexValue_def hexDigitValue_def)
  then show ?thesis using hexToRgba_hash [OF d] by simp
qed





section \<open>Verification: effects and pointer-down\<close>

lemma fillRectWhite_clear:
  "fillRectWhite source_over (clearRect bm) = whiteBitmap (width bm) (height bm)"
  by (simp add: fillRectWhite_def clearRect_def whiteBitmap_def)

lemma clearEffect_result:
  assumes "canvasRef st = Some cv" "contextRef st = Some c"
  shows "clearEffect st =
     st\<lparr>canvasRef := Some (cv\<lparr>bitmap := fillRectWhite (globalCompositeOperation (current c)) (clearRect (bitmap cv))\<rparr>),
        historyRef := []\<rparr>"
  using assms
  by (intro engine_eqI)
     (simp_all add: clearEffect_def ctxFillRectWhite_def Let_def ctxSave_def ctxRestore_def
        setTransformIdentity_def setFillStyle_def)

lemma resizeToContainer_result:
  assumes "canvasRef st = Some cv" "contextRef st = Some c"
  shows "\<exists>bm cx. resizeToContainer br st = st\<lparr>canvasRef := Some (cv\<lparr>bitmap := bm, originClean := True\<rparr>), contextRef := Some cx\<rparr>
     \<and> width bm = containerWidth br \<and> height bm = containerHeight br
     \<and> globalCompositeOperation (current cx) = source_over"
proof -
  define ratio where "ratio = (if devicePixelRatio br = 0 then 1 else devicePixelRatio br)"
  define cx where "cx = setLineCapJoin ''round'' ''round'' (ctxScale ratio ratio (setTransformIdentity defaultContext))"
  define blank where "blank = \<lparr> data = replicate (4 * (containerWidth br * containerHeight br)) 0,
       width = containerWidth br, height = containerHeight br \<rparr>"
  define bm where "bm = (case (if 0 < width (bitmap cv) \<and> 0 < height (bitmap cv) then getImageData cv else None) of
      Some img \<Rightarrow> putImageData img blank
    | None \<Rightarrow> fillRectWhite source_over blank)"
  have gco: "globalCompositeOperation (current cx) = source_over"
    by (simp add: cx_def setLineCapJoin_def ctxScale_def setTransformIdentity_def defaultContext_def
          defaultState_def)
  have size: "width bm = containerWidth br \<and> height bm = containerHeight br"
    by (simp add: bm_def blank_def fillRectWhite_def split: option.splits)
  have "resizeToContainer br st = st\<lparr>canvasRef := Some (cv\<lparr>bitmap := bm, originClean := True\<rparr>), contextRef := Some cx\<rparr>"
    using assms gco
    by (intro engine_eqI)
       (auto simp: resizeToContainer_def Let_def setCanvasSize_def ctxFillRectWhite_def ratio_def cx_def
          bm_def blank_def ctxSave_def ctxRestore_def setTransformIdentity_def setFillStyle_def
          setLineCapJoin_def ctxScale_def defaultContext_def defaultState_def
          split: option.splits)
  then show ?thesis using size gco by blast
qed

lemma mountEffects_result:
  assumes "supports2d br"
  shows "\<exists>cv cx. mountEffects br p (initialRefs cv0) =
      (initialRefs cv0)\<lparr>canvasRef := Some cv, contextRef := Some cx\<rparr>
    \<and> bitmap cv = whiteBitmap (containerWidth br) (containerHeight br)"
proof -
  let ?st0 = "(initialRefs cv0)\<lparr>contextRef := Some defaultContext\<rparr>"
  have s: "setupEffect br (initialRefs cv0) = resizeToContainer br ?st0"
    using assms by (simp add: setupEffect_def initialRefs_def)
  obtain bm cx where r: "resizeToContainer br ?st0 =
       ?st0\<lparr>canvasRef := Some (cv0\<lparr>bitmap := bm, originClean := True\<rparr>), contextRef := Some cx\<rparr>"
     "width bm = containerWidth br" "height bm = containerHeight br"
     "globalCompositeOperation (current cx) = source_over"
    using resizeToContainer_result [of ?st0 cv0 defaultContext br] by (auto simp: initialRefs_def)
  let ?st1 = "?st0\<lparr>canvasRef := Some (cv0\<lparr>bitmap := bm, originClean := True\<rparr>), contextRef := Some cx\<rparr>"
  let ?cv = "cv0\<lparr>bitmap := whiteBitmap (containerWidth br) (containerHeight br), originClean := True\<rparr>"
  have c: "clearEffect ?st1 = (initialRefs cv0)\<lparr>canvasRef := Some ?cv, contextRef := Some cx\<rparr>"
    using clearEffect_result [of ?st1 "cv0\<lparr>bitmap := bm, originClean := True\<rparr>" cx] r(2-4)
    by (simp add: fillRectWhite_clear initialRefs_def)
  have "undoEffect p ((initialRefs cv0)\<lparr>canvasRef := Some ?cv, contextRef := Some cx\<rparr>)
      = (initialRefs cv0)\<lparr>canvasRef := Some ?cv, contextRef := Some cx\<rparr>"
    by (intro undoEffect_empty) (simp add: initialRefs_def)
  then have "mountEffects br p (initialRefs cv0) = (initialRefs cv0)\<lparr>canvasRef := Some ?cv, contextRef := Some cx\<rparr>"
    unfolding mountEffects_def s r(1) c .
  then show ?thesis by (intro exI [of _ ?cv] exI [of _ cx]) simp
qed

lemma pushSnapshot_ok:
  assumes "contextRef st = Some c" "getImageData cv = Some snapshot"
  shows "pushSnapshotForUndo cv st =
     (st\<lparr>historyRef := (if length (historyRef st) \<ge> 25 then tl (historyRef st) else historyRef st) @ [snapshot]\<rparr>,
      Some snapshot)"
proof -
  have "onContext ctxRestore (onContext setTransformIdentity (onContext ctxSave st)) = st"
    using assms(1) by (intro engine_eqI) simp_all
  then show ?thesis using assms(2) by (simp add: pushSnapshotForUndo_def Let_def)
qed

lemma pushSnapshot_fail:
  assumes "contextRef st = Some c" "getImageData cv = None"
  shows "pushSnapshotForUndo cv st = (st\<lparr>contextRef := Some (setTransformIdentity (ctxSave c))\<rparr>, None)"
proof -
  have "onContext setTransformIdentity (onContext ctxSave st) = st\<lparr>contextRef := Some (setTransformIdentity (ctxSave c))\<rparr>"
    using assms(1) by (intro engine_eqI) simp_all
  then show ?thesis using assms(2) by (simp add: pushSnapshotForUndo_def Let_def)
qed

lemma getCanvasCoordinates_Some:
  "canvasRef st = Some cv \<Longrightarrow> getCanvasCoordinates br ev st = Some (eventPoint br ev)"
  by (simp add: getCanvasCoordinates_def eventPoint_def)

lemma floodFill_total:
  "\<exists>res. floodFill br p start st = Some res \<and> historyRef (engineOf res) = historyRef st
     \<and> isDrawingRef (engineOf res) = isDrawingRef st"
proof (cases "canvasRef st")
  case None
  then show ?thesis by (simp add: floodFill_def)
next
  case cv: (Some cv)
  show ?thesis
  proof (cases "contextRef st")
    case None
    then show ?thesis using cv by (simp add: floodFill_def)
  next
    case c: (Some c)
    show ?thesis
    proof (cases "getImageData cv")
      case None
      then show ?thesis using cv c by (simp add: floodFill_def getPixelCoordinates_def Let_def)
    next
      case (Some imageData)
      have le: "width imageData * height imageData
                  \<le> length (replicate (width imageData * height imageData) (0::nat))" by simp
      obtain d' where "floodLoop (width imageData) (height imageData)
          (map_option rgbaOf (readPixel (data imageData)
             ((snd (toPixel br start) * int (width imageData) + fst (toPixel br start)) * 4)))
          (hexToRgba (color p)) [toPixel br start]
          (replicate (width imageData * height imageData) 0) (data imageData) = Some d'"
        using floodLoop_terminates [OF le] by blast
      then show ?thesis 
        using cv c Some by (simp add: floodFill_def getPixelCoordinates_def Let_def)
    qed
  qed
qed

lemma setPointerCapture_fields [simp]:
  "contextRef (setPointerCapture pid st) = contextRef st"
  "historyRef (setPointerCapture pid st) = historyRef st"
  "isDrawingRef (setPointerCapture pid st) = isDrawingRef st"
  "shapeStartRef (setPointerCapture pid st) = shapeStartRef st"
  "shapeSnapshotRef (setPointerCapture pid st) = shapeSnapshotRef st"
  "canvasRef (setPointerCapture pid st) =
     map_option (\<lambda>cv. cv\<lparr>pointerCapture := insert pid (pointerCapture cv)\<rparr>) (canvasRef st)"
  by (simp_all add: setPointerCapture_def split: option.splits)

lemma ctxStroke_fields [simp]:
  "contextRef (ctxStroke br st) = contextRef st"
  "historyRef (ctxStroke br st) = historyRef st"
  "isDrawingRef (ctxStroke br st) = isDrawingRef st"
  "shapeStartRef (ctxStroke br st) = shapeStartRef st"
  "shapeSnapshotRef (ctxStroke br st) = shapeSnapshotRef st"
  by (simp_all add: ctxStroke_def split: option.splits)

lemma ctxStrokeRect_fields [simp]:
  "contextRef (ctxStrokeRect br x y w h st) = contextRef st"
  "historyRef (ctxStrokeRect br x y w h st) = historyRef st"
  "isDrawingRef (ctxStrokeRect br x y w h st) = isDrawingRef st"
  "shapeStartRef (ctxStrokeRect br x y w h st) = shapeStartRef st"
  "shapeSnapshotRef (ctxStrokeRect br x y w h st) = shapeSnapshotRef st"
  by (simp_all add: ctxStrokeRect_def split: option.splits)

lemma restoreSnapshot_fields [simp]:
  "historyRef (restoreSnapshot snap st) = historyRef st"
  "isDrawingRef (restoreSnapshot snap st) = isDrawingRef st"
  "shapeStartRef (restoreSnapshot snap st) = shapeStartRef st"
  "shapeSnapshotRef (restoreSnapshot snap st) = shapeSnapshotRef st"
  by (simp_all add: restoreSnapshot_def Let_def split: option.splits)

lemma drawPreviewShape_fields [simp]:
  "historyRef (drawPreviewShape br p cur st) = historyRef st"
  "isDrawingRef (drawPreviewShape br p cur st) = isDrawingRef st"
  "shapeStartRef (drawPreviewShape br p cur st) = shapeStartRef st"
  "shapeSnapshotRef (drawPreviewShape br p cur st) = shapeSnapshotRef st"
  by (simp_all add: drawPreviewShape_def Let_def split: option.splits)

lemma handlePointerDown_fill:
  assumes "canvasRef st = Some cv" "contextRef st = Some c" "tool p = Fill"
  shows "handlePointerDown br p ev st = floodFill br p (eventPoint br ev) (fst (pushSnapshotForUndo cv st))"
  using assms
  by (simp add: handlePointerDown_def getCanvasCoordinates_Some split: prod.splits)

lemma handlePointerDown_draw:
  assumes "canvasRef st = Some cv" "contextRef st = Some c" "tool p \<noteq> Fill"
  shows "\<exists>st'. handlePointerDown br p ev st = Some (Returned st')
     \<and> historyRef st' = historyRef (fst (pushSnapshotForUndo cv st)) \<and> isDrawingRef st'"
  using assms
  by (simp add: handlePointerDown_def getCanvasCoordinates_Some Let_def split: prod.splits)

text \<open>
  \<^bold>\<open>C9.\<close> A pointer-down on a canvas with a context, whose pixels can be read, returns
  for every tool with exactly one snapshot pushed: the history afterwards is the history
  before, without its oldest entry when it held 25, followed by the bitmap as it was
  before the operation. This holds also for the fill tool when the seed already matches
  the fill color: the canvas is then unchanged and a history below capacity is one entry
  longer.
\<close>

theorem pointerDown_pushes_one_snapshot:
  assumes "canvasRef st = Some cv" and "contextRef st = Some c"
    and "getImageData cv = Some snapshot"
  shows "\<exists>res. handlePointerDown br p ev st = Some res
      \<and> historyRef (engineOf res) =
            (if length (historyRef st) \<ge> 25 then tl (historyRef st) else historyRef st) @ [snapshot]
      \<and> snapshot = bitmap cv
      \<and> (tool p = Fill
           \<and> inBounds (width (bitmap cv)) (height (bitmap cv)) (toPixel br (eventPoint br ev))
           \<and> (\<exists>tq. pixelAt (bitmap cv) (toPixel br (eventPoint br ev)) = Some tq
                  \<and> colorsMatch tq (hexToRgba (color p)) defaultTolerance)
          \<longrightarrow> canvasRef (engineOf res) = canvasRef st
              \<and> (length (historyRef st) < 25
                    \<longrightarrow> length (historyRef (engineOf res)) = Suc (length (historyRef st))))"
proof -
  let ?pushed = "(if length (historyRef st) \<ge> 25 then tl (historyRef st) else historyRef st) @ [snapshot]"
  let ?st1 = "st\<lparr>historyRef := ?pushed\<rparr>"
  have push: "pushSnapshotForUndo cv st = (?st1, Some snapshot)"
    using assms(2,3) by (rule pushSnapshot_ok)
  have snap: "snapshot = bitmap cv" and clean: "originClean cv"
    using assms(3) by (auto simp: getImageData_def split: if_splits)
  show ?thesis
  proof (cases "tool p = Fill")
    case True
    have down: "handlePointerDown br p ev st = floodFill br p (eventPoint br ev) ?st1"
      using handlePointerDown_fill [OF assms(1,2) True] push by simp
    obtain res where res: "floodFill br p (eventPoint br ev) ?st1 = Some res"
      "historyRef (engineOf res) = historyRef ?st1"
      using floodFill_total by blast
    have noop: "canvasRef (engineOf res) = canvasRef st
              \<and> (length (historyRef st) < 25
                    \<longrightarrow> length (historyRef (engineOf res)) = Suc (length (historyRef st)))"
      if "inBounds (width (bitmap cv)) (height (bitmap cv)) (toPixel br (eventPoint br ev))"
        and "pixelAt (bitmap cv) (toPixel br (eventPoint br ev)) = Some tq"
        and "colorsMatch tq (hexToRgba (color p)) defaultTolerance" for tq
    proof -
      have "floodFill br p (eventPoint br ev) ?st1 = Some (Returned ?st1)"
        using assms(1,2) clean that
        by (intro floodFill_matching [where cv = cv and c = c and tq = tq
              and seed = "toPixel br (eventPoint br ev)"]) simp_all
      then have "res = Returned ?st1" using res(1) by simp
      then show ?thesis by simp
    qed
    show ?thesis
      using down res snap noop by auto
  next
    case False
    obtain st' where "handlePointerDown br p ev st = Some (Returned st')"
      "historyRef st' = historyRef (fst (pushSnapshotForUndo cv st))"
      using handlePointerDown_draw [OF assms(1,2) False] by blast
    then show ?thesis using push snap False by auto
  qed
qed

theorem pointerDown_pushes_one_snapshot_witness:
  "getImageData (exampleCanvas threePixelsFilled) = Some threePixelsFilled
   \<and> handlePointerDown exampleBrowser (exampleProps Fill ''#ff0000'' 0)
        \<lparr> clientX = 0, clientY = 0, pointerId = 1 \<rparr> (exampleEngine threePixelsFilled [])
       = Some (Returned (exampleEngine threePixelsFilled [threePixelsFilled]))"
proof -
  let ?st = "exampleEngine threePixelsFilled []" and ?p = "exampleProps Fill ''#ff0000'' 0"
  let ?ev = "\<lparr> clientX = 0, clientY = 0, pointerId = 1 \<rparr>"
  let ?cv = "exampleCanvas threePixelsFilled"
  have h: "canvasRef ?st = Some ?cv" "contextRef ?st = Some defaultContext"
    "getImageData ?cv = Some threePixelsFilled"
    by (simp_all add: exampleEngine_def exampleCanvas_def getImageData_def threePixelsFilled_def)
  have seed: "toPixel exampleBrowser (eventPoint exampleBrowser ?ev) = (0, 0)"
    by (simp add: exampleBrowser_def eventPoint_def)
  have fillcase: "tool ?p = Fill
           \<and> inBounds (width (bitmap ?cv)) (height (bitmap ?cv)) (toPixel exampleBrowser (eventPoint exampleBrowser ?ev))
           \<and> (\<exists>tq. pixelAt (bitmap ?cv) (toPixel exampleBrowser (eventPoint exampleBrowser ?ev)) = Some tq
                  \<and> colorsMatch tq (hexToRgba (color ?p)) defaultTolerance)"
    unfolding seed
    by (simp add: exampleCanvas_def exampleProps_def threePixelsFilled_def pixelAt_def readPixel_def
          hexToRgba_red colorsMatch_def defaultTolerance_def inBounds_def)
  obtain res where res: "handlePointerDown exampleBrowser ?p ?ev ?st = Some res"
    "historyRef (engineOf res) = [threePixelsFilled]" "canvasRef (engineOf res) = canvasRef ?st"
    using pointerDown_pushes_one_snapshot [OF h, of exampleBrowser ?p ?ev] fillcase
    by (auto simp: exampleEngine_def)
  have "handlePointerDown exampleBrowser ?p ?ev ?st
      = floodFill exampleBrowser ?p (eventPoint exampleBrowser ?ev) (exampleEngine threePixelsFilled [threePixelsFilled])"
    using handlePointerDown_fill [OF h(1,2), of ?p exampleBrowser ?ev] pushSnapshot_ok [OF h(2,3)]
    by (simp add: exampleProps_def exampleEngine_def)
  moreover have "floodFill exampleBrowser ?p (eventPoint exampleBrowser ?ev) (exampleEngine threePixelsFilled [threePixelsFilled])
      = Some (Returned (exampleEngine threePixelsFilled [threePixelsFilled]))"
    using fillcase seed
    by (intro floodFill_matching [where cv = ?cv and c = defaultContext and seed = "(0, 0)" and tq = "(255, 0, 0, 255)"])
       (simp_all add: exampleEngine_def exampleCanvas_def exampleProps_def threePixelsFilled_def pixelAt_def
          readPixel_def hexToRgba_red colorsMatch_def defaultTolerance_def inBounds_def)
  ultimately show ?thesis using h(3) res by simp
qed

text \<open>
  \<^bold>\<open>C10.\<close> The clear effect does not look at its signal: React runs it after the first
  render, whatever the props, and mounting on a browser with a 2D context leaves the
  canvas opaque white at the size of the container and the history empty; after a later
  render in which the clear signal changed it empties the history again and repaints the
  bitmap, white when the composite operation is \<open>source-over\<close>. The undo effect
  returns at once when its signal is 0, and for any other signal it takes the most recent
  snapshot off a non-empty history.
\<close>

theorem clear_runs_on_mount_undo_ignores_zero:
  "(supports2d br \<longrightarrow>
      (\<exists>cv cx. mountEffects br p (initialRefs cv0) =
                 (initialRefs cv0)\<lparr>canvasRef := Some cv, contextRef := Some cx\<rparr>
             \<and> bitmap cv = whiteBitmap (containerWidth br) (containerHeight br))
      \<and> historyRef (mountEffects br p (initialRefs cv0)) = [])
   \<and> (clearSignal p \<noteq> clearSignal prev \<and> undoSignal p = undoSignal prev
        \<and> canvasRef st = Some cv1 \<and> contextRef st = Some c1 \<longrightarrow>
       updateEffects prev p st =
         st\<lparr>canvasRef := Some (cv1\<lparr>bitmap :=
                 fillRectWhite (globalCompositeOperation (current c1)) (clearRect (bitmap cv1))\<rparr>),
            historyRef := []\<rparr>
       \<and> fillRectWhite source_over (clearRect (bitmap cv1))
            = whiteBitmap (width (bitmap cv1)) (height (bitmap cv1)))
   \<and> (undoSignal p = 0 \<longrightarrow> undoEffect p st = st)
   \<and> (undoSignal p \<noteq> 0 \<and> canvasRef st = Some cv1 \<and> contextRef st = Some c1
        \<and> historyRef st = older @ [previous] \<longrightarrow> historyRef (undoEffect p st) = older)"
proof -
  have mount: "(\<exists>cv cx. mountEffects br p (initialRefs cv0) =
                 (initialRefs cv0)\<lparr>canvasRef := Some cv, contextRef := Some cx\<rparr>
             \<and> bitmap cv = whiteBitmap (containerWidth br) (containerHeight br))
      \<and> historyRef (mountEffects br p (initialRefs cv0)) = []" if sup: "supports2d br"
  proof -
    obtain cv cx where m: "mountEffects br p (initialRefs cv0) =
                 (initialRefs cv0)\<lparr>canvasRef := Some cv, contextRef := Some cx\<rparr>"
        "bitmap cv = whiteBitmap (containerWidth br) (containerHeight br)"
      using mountEffects_result [OF sup] by blast
    have "historyRef (mountEffects br p (initialRefs cv0)) = []"
      unfolding m(1) by (simp add: initialRefs_def)
    then show ?thesis using m by blast
  qed
  have update: "updateEffects prev p st =
         st\<lparr>canvasRef := Some (cv1\<lparr>bitmap :=
                 fillRectWhite (globalCompositeOperation (current c1)) (clearRect (bitmap cv1))\<rparr>),
            historyRef := []\<rparr>"
    if "clearSignal p \<noteq> clearSignal prev" "undoSignal p = undoSignal prev"
      "canvasRef st = Some cv1" "contextRef st = Some c1"
    using that clearEffect_result [OF that(3,4)] by (simp add: updateEffects_def)
  have zero: "undoEffect p st = st" if "undoSignal p = 0"
    using that by (simp add: undoEffect_def)
  have pop: "historyRef (undoEffect p st) = older"
    if "undoSignal p \<noteq> 0" "canvasRef st = Some cv1" "contextRef st = Some c1"
      "historyRef st = older @ [previous]"
    using undoEffect_pop [OF that] by simp
  show ?thesis
    using mount update zero pop fillRectWhite_clear by blast
qed

theorem clear_runs_on_mount_undo_ignores_zero_witness:
  "supports2d exampleBrowser
   \<and> historyRef (mountEffects exampleBrowser (exampleProps Pencil ''#22d3ee'' 0)
        (initialRefs (exampleCanvas (grayPixel 0)))) = []
   \<and> map_option bitmap (canvasRef (mountEffects exampleBrowser (exampleProps Pencil ''#22d3ee'' 0)
        (initialRefs (exampleCanvas (grayPixel 0))))) = Some (whiteBitmap 3 1)
   \<and> undoEffect (exampleProps Pencil ''#22d3ee'' 0) (exampleEngine (grayPixel 0) [grayPixel 8])
       = exampleEngine (grayPixel 0) [grayPixel 8]"
proof -
  let ?p = "exampleProps Pencil ''#22d3ee'' 0" and ?cv0 = "exampleCanvas (grayPixel 0)"
  have s: "supports2d exampleBrowser" by (simp add: exampleBrowser_def)
  have z: "undoSignal ?p = 0" by (simp add: exampleProps_def)
  note T = clear_runs_on_mount_undo_ignores_zero
    [of exampleBrowser ?p ?cv0 ?p "exampleEngine (grayPixel 0) [grayPixel 8]"]
  obtain cv cx where m: "mountEffects exampleBrowser ?p (initialRefs ?cv0) =
                 (initialRefs ?cv0)\<lparr>canvasRef := Some cv, contextRef := Some cx\<rparr>"
      "bitmap cv = whiteBitmap (containerWidth exampleBrowser) (containerHeight exampleBrowser)"
      "historyRef (mountEffects exampleBrowser ?p (initialRefs ?cv0)) = []"
    using T s by blast
  have "map_option bitmap (canvasRef (mountEffects exampleBrowser ?p (initialRefs ?cv0))) = Some (whiteBitmap 3 1)"
    unfolding m(1) by (simp add: m(2) exampleBrowser_def)
  moreover have "undoEffect ?p (exampleEngine (grayPixel 0) [grayPixel 8]) = exampleEngine (grayPixel 0) [grayPixel 8]"
    using T z by blast
  ultimately show ?thesis using s m(3) by blast
qed

section \<open>Verification: shape gestures\<close>

lemma shapeState_idem [simp]: "shapeState p (shapeState p ds) = shapeState p ds"
  by (simp add: shapeState_def)

lemma strokeShape_shapeState [simp]:
  "strokeShape br p (shapeState p ds) start cur bm = strokeShape br p ds start cur bm"
  by (simp add: strokeShape_def)

lemma strokeShape_size [simp]:
  "width (strokeShape br p ds start cur bm) = width bm"
  "height (strokeShape br p ds start cur bm) = height bm"
  by (simp_all add: strokeShape_def)

lemma restoreSnapshot_result:
  assumes "canvasRef st = Some cvx" "contextRef st = Some cx"
  shows "restoreSnapshot snapshot st =
     st\<lparr>canvasRef := Some (cvx\<lparr>bitmap :=
        (case snapshot of Some snap \<Rightarrow> putImageData snap (clearRect (bitmap cvx)) | None \<Rightarrow> bitmap cvx)\<rparr>)\<rparr>"
  using assms by (intro engine_eqI) (simp_all add: restoreSnapshot_def Let_def split: option.splits)

lemma drawPreviewShape_result:
  assumes "canvasRef st = Some cvx" "contextRef st = Some cx" "shapeStartRef st = Some start"
    and "isShapeTool (tool p)"
  shows "drawPreviewShape br p cur st =
     st\<lparr>canvasRef := Some (cvx\<lparr>bitmap := strokeShape br p (current cx) start cur
          (case shapeSnapshotRef st of Some snap \<Rightarrow> putImageData snap (clearRect (bitmap cvx))
           | None \<Rightarrow> bitmap cvx)\<rparr>),
        contextRef := Some (shapeContext br p start cur cx)\<rparr>"
proof -
  let ?st1 = "restoreSnapshot (shapeSnapshotRef st) st"
  note r = restoreSnapshot_result [OF assms(1,2), of "shapeSnapshotRef st"]
  have ds: "current (setComposite source_over (setFillStyle (color p) (setStrokeStyle (color p)
               (setLineWidth (brushSize p) cx)))) = shapeState p (current cx)"
    by (simp add: setComposite_def setFillStyle_def setStrokeStyle_def setLineWidth_def shapeState_def)
  consider "tool p = Line" | "tool p = Rectangle" | "tool p = Ellipse"
    using assms(4) by (auto simp: isShapeTool_def)
  then show ?thesis
  proof cases
    case 1
    then show ?thesis
      using assms(1-3) 
      by (intro engine_eqI)
         (simp_all add: drawPreviewShape_def r Let_def ctxStroke_def strokeShape_def shapePath_def
            shapeContext_def shapeState_def beginPath_def addSegment_def
            setComposite_def setFillStyle_def setStrokeStyle_def setLineWidth_def)
  next
    case 2
    then show ?thesis
      using assms(1-3) 
      by (intro engine_eqI)
         (simp_all add: drawPreviewShape_def r Let_def ctxStrokeRect_def strokeShape_def shapePath_def
            shapeContext_def shapeState_def beginPath_def addSegment_def
            setComposite_def setFillStyle_def setStrokeStyle_def setLineWidth_def)
  next
    case 3
    then show ?thesis
      using assms(1-3) 
      by (intro engine_eqI)
         (simp_all add: drawPreviewShape_def r Let_def ctxStroke_def strokeShape_def shapePath_def
            shapeContext_def shapeState_def beginPath_def addSegment_def
            setComposite_def setFillStyle_def setStrokeStyle_def setLineWidth_def)
  qed
qed


lemma shapeContext_state [simp]:
  "current (shapeContext br p start cur cx) = shapeState p (current cx)"
  by (simp add: shapeContext_def)








lemmas example_defs = exampleBrowser_def exampleProps_def exampleEngine_def exampleCanvas_def
  taintedEngine_def pointerAt_def whiteRow_def eventPoint_def

lemmas raster_defs = dotStroke_def dotStrokeRect_def markPixel_def inBounds_def setPixel_def
  clampByte_def strokeShape_def shapePath_def Let_def





section \<open>Verification: pointer-down without a snapshot\<close>

lemma floodFill_unreadable:
  assumes "canvasRef st = Some cv" "contextRef st = Some c" "getImageData cv = None"
  shows "floodFill br p start st = Some (Uncaught (st\<lparr>contextRef := Some (setTransformIdentity (ctxSave c))\<rparr>))"
proof -
  have "onContext setTransformIdentity (onContext ctxSave st) = st\<lparr>contextRef := Some (setTransformIdentity (ctxSave c))\<rparr>"
    using assms(2) by (intro engine_eqI) simp_all
  then show ?thesis
    using assms by (simp add: floodFill_def getPixelCoordinates_def Let_def)
qed

text \<open>
  \<^bold>\<open>C8.\<close> A pointer-down on a canvas whose pixels cannot be read, so that the capture of
  the snapshot fails. \<^verbatim>\<open>pushSnapshotForUndo\<close> returns \<^verbatim>\<open>null\<close> and leaves the history as it
  is; the throw skips its \<^verbatim>\<open>restore()\<close>, so the context keeps the identity transform and
  one more saved state. With the pencil, the eraser or a shape tool the handler goes on:
  it captures the pointer, paints the first dot or the first preview on the bitmap with
  the width and the color of the props, under the identity transform, and the gesture is
  active. With the fill tool the handler calls the flood fill, whose own
  \<^verbatim>\<open>getImageData\<close> stands outside any \<^verbatim>\<open>try\<close>: the handler ends with the exception, the
  bitmap and the history are as they were, and the context holds two more saved states.
  The fill is not performed, where the specification asks that the operation proceed.
\<close>

theorem pointerDown_on_capture_failure:
  assumes "canvasRef st = Some cv" and "contextRef st = Some c" and "getImageData cv = None"
  shows "pushSnapshotForUndo cv st = (st\<lparr>contextRef := Some (setTransformIdentity (ctxSave c))\<rparr>, None)
     \<and> setTransformIdentity (ctxSave c) =
          \<lparr> current = (current c)\<lparr>transform := (1, 0, 0, 1, 0, 0)\<rparr>,
            savedStates = current c # savedStates c, path = path c \<rparr>
     \<and> (tool p = Fill \<longrightarrow>
          handlePointerDown br p ev st =
            Some (Uncaught (st\<lparr>contextRef :=
              Some \<lparr> current = (current c)\<lparr>transform := (1, 0, 0, 1, 0, 0)\<rparr>,
                     savedStates = (current c)\<lparr>transform := (1, 0, 0, 1, 0, 0)\<rparr> # current c # savedStates c,
                     path = path c \<rparr>\<rparr>)))
     \<and> (tool p = Pencil \<or> tool p = Eraser \<longrightarrow>
          handlePointerDown br p ev st =
            Some (Returned (st\<lparr>
              canvasRef := Some (cv\<lparr>
                bitmap := (bitmap cv)\<lparr>data := strokePath br
                   ((current c)\<lparr>transform := (1, 0, 0, 1, 0, 0), lineWidth := brushSize p,
                       strokeStyle := color p,
                       globalCompositeOperation := (if tool p = Eraser then destination_out else source_over)\<rparr>)
                   [MoveTo (fst (eventPoint br ev)) (snd (eventPoint br ev)),
                    LineTo (fst (eventPoint br ev)) (snd (eventPoint br ev))] (bitmap cv)\<rparr>,
                pointerCapture := insert (pointerId ev) (pointerCapture cv)\<rparr>),
              contextRef := Some
                \<lparr> current = (current c)\<lparr>transform := (1, 0, 0, 1, 0, 0), lineWidth := brushSize p,
                       strokeStyle := color p,
                       globalCompositeOperation := (if tool p = Eraser then destination_out else source_over)\<rparr>,
                  savedStates = current c # savedStates c,
                  path = [MoveTo (fst (eventPoint br ev)) (snd (eventPoint br ev)),
                          LineTo (fst (eventPoint br ev)) (snd (eventPoint br ev))] \<rparr>,
              isDrawingRef := True\<rparr>)))
     \<and> (isShapeTool (tool p) \<longrightarrow>
          handlePointerDown br p ev st =
            Some (Returned (st\<lparr>
              canvasRef := Some (cv\<lparr>
                bitmap := strokeShape br p ((current c)\<lparr>transform := (1, 0, 0, 1, 0, 0)\<rparr>)
                            (eventPoint br ev) (eventPoint br ev) (bitmap cv),
                pointerCapture := insert (pointerId ev) (pointerCapture cv)\<rparr>),
              contextRef := Some
                \<lparr> current = shapeState p ((current c)\<lparr>transform := (1, 0, 0, 1, 0, 0)\<rparr>),
                  savedStates = current c # savedStates c,
                  path = (if tool p = Rectangle then path c
                          else shapePath (tool p) (eventPoint br ev) (eventPoint br ev) @ [ClosePath]) \<rparr>,
              isDrawingRef := True, shapeStartRef := Some (eventPoint br ev),
              shapeSnapshotRef := None\<rparr>)))"
proof -
  let ?I = "(1, 0, 0, 1, 0, 0) :: real \<times> real \<times> real \<times> real \<times> real \<times> real"
  let ?c1 = "setTransformIdentity (ctxSave c)"
  let ?st1 = "st\<lparr>contextRef := Some ?c1\<rparr>"
  let ?pt = "eventPoint br ev"
  have push: "pushSnapshotForUndo cv st = (?st1, None)"
    using assms(2,3) by (rule pushSnapshot_fail)
  have c1: "?c1 = \<lparr> current = (current c)\<lparr>transform := ?I\<rparr>,
                     savedStates = current c # savedStates c, path = path c \<rparr>"
    by (simp add: setTransformIdentity_def ctxSave_def)
  have fill: "handlePointerDown br p ev st =
            Some (Uncaught (st\<lparr>contextRef :=
              Some \<lparr> current = (current c)\<lparr>transform := ?I\<rparr>,
                     savedStates = (current c)\<lparr>transform := ?I\<rparr> # current c # savedStates c,
                     path = path c \<rparr>\<rparr>))" if f: "tool p = Fill"
  proof -
    have "handlePointerDown br p ev st = floodFill br p ?pt ?st1"
      using handlePointerDown_fill [OF assms(1,2) f, of br ev] push by simp
    also have "\<dots> = Some (Uncaught (?st1\<lparr>contextRef := Some (setTransformIdentity (ctxSave ?c1))\<rparr>))"
      using assms(1,3) by (intro floodFill_unreadable) simp_all
    also have "setTransformIdentity (ctxSave ?c1) =
        \<lparr> current = (current c)\<lparr>transform := ?I\<rparr>,
          savedStates = (current c)\<lparr>transform := ?I\<rparr> # current c # savedStates c,
          path = path c \<rparr>"
      by (simp add: setTransformIdentity_def ctxSave_def)
    finally show ?thesis by simp
  qed
  have draw: "handlePointerDown br p ev st =
            Some (Returned (st\<lparr>
              canvasRef := Some (cv\<lparr>
                bitmap := (bitmap cv)\<lparr>data := strokePath br
                   ((current c)\<lparr>transform := ?I, lineWidth := brushSize p,
                       strokeStyle := color p,
                       globalCompositeOperation := (if tool p = Eraser then destination_out else source_over)\<rparr>)
                   [MoveTo (fst ?pt) (snd ?pt), LineTo (fst ?pt) (snd ?pt)] (bitmap cv)\<rparr>,
                pointerCapture := insert (pointerId ev) (pointerCapture cv)\<rparr>),
              contextRef := Some
                \<lparr> current = (current c)\<lparr>transform := ?I, lineWidth := brushSize p,
                       strokeStyle := color p,
                       globalCompositeOperation := (if tool p = Eraser then destination_out else source_over)\<rparr>,
                  savedStates = current c # savedStates c,
                  path = [MoveTo (fst ?pt) (snd ?pt), LineTo (fst ?pt) (snd ?pt)] \<rparr>,
              isDrawingRef := True\<rparr>))" (is "_ = Some (Returned ?st')")
    if pe: "tool p = Pencil \<or> tool p = Eraser"
  proof -
    have nf: "tool p \<noteq> Fill" using pe by auto
    let ?raw = "ctxStroke br
          (onContext (addSegment (LineTo (fst ?pt) (snd ?pt)))
            (onContext (addSegment (MoveTo (fst ?pt) (snd ?pt)))
              (onContext beginPath
                (onContext (setComposite (if tool p = Eraser then destination_out else source_over))
                  (onContext (setStrokeStyle (color p))
                    (onContext (setLineWidth (brushSize p))
                      ((setPointerCapture (pointerId ev) ?st1)\<lparr>isDrawingRef := True\<rparr>)))))))"
    have down: "handlePointerDown br p ev st = Some (Returned ?raw)"
      using assms(1,2) nf pe push
      by (simp add: handlePointerDown_def getCanvasCoordinates_Some Let_def split del: if_split)
    have "?raw = ?st'"
      using assms(1,2)
      by (intro engine_eqI)
         (simp_all add: ctxStroke_def beginPath_def addSegment_def setComposite_def setStrokeStyle_def
            setLineWidth_def c1 split del: if_split)
    then show ?thesis using down by simp
  qed
  have shape: "handlePointerDown br p ev st =
            Some (Returned (st\<lparr>
              canvasRef := Some (cv\<lparr>
                bitmap := strokeShape br p ((current c)\<lparr>transform := ?I\<rparr>) ?pt ?pt (bitmap cv),
                pointerCapture := insert (pointerId ev) (pointerCapture cv)\<rparr>),
              contextRef := Some
                \<lparr> current = shapeState p ((current c)\<lparr>transform := ?I\<rparr>),
                  savedStates = current c # savedStates c,
                  path = (if tool p = Rectangle then path c
                          else shapePath (tool p) ?pt ?pt @ [ClosePath]) \<rparr>,
              isDrawingRef := True, shapeStartRef := Some ?pt,
              shapeSnapshotRef := None\<rparr>))" (is "_ = Some (Returned ?st')")
    if sh: "isShapeTool (tool p)"
  proof -
    have nf: "tool p \<noteq> Fill" and np: "\<not> (tool p = Pencil \<or> tool p = Eraser)"
      using sh by (auto simp: isShapeTool_def)
    let ?cx = "setComposite source_over (setStrokeStyle (color p) (setLineWidth (brushSize p) ?c1))"
    let ?cvx = "cv\<lparr>pointerCapture := insert (pointerId ev) (pointerCapture cv)\<rparr>"
    let ?raw = "(onContext (setComposite source_over)
            (onContext (setStrokeStyle (color p))
              (onContext (setLineWidth (brushSize p))
                ((setPointerCapture (pointerId ev) ?st1)\<lparr>isDrawingRef := True\<rparr>))))
           \<lparr>shapeStartRef := Some ?pt, shapeSnapshotRef := None\<rparr>"
    have down: "handlePointerDown br p ev st = Some (Returned (drawPreviewShape br p ?pt ?raw))"
      using assms(1,2) nf np push
      by (simp add: handlePointerDown_def getCanvasCoordinates_Some Let_def)
    have raw: "canvasRef ?raw = Some ?cvx" "contextRef ?raw = Some ?cx" "shapeStartRef ?raw = Some ?pt"
      "shapeSnapshotRef ?raw = None" "historyRef ?raw = historyRef st" "isDrawingRef ?raw"
      using assms(1,2) by simp_all
    have res: "drawPreviewShape br p ?pt ?raw =
         ?raw\<lparr>canvasRef := Some (?cvx\<lparr>bitmap := strokeShape br p (current ?cx) ?pt ?pt (bitmap ?cvx)\<rparr>),
              contextRef := Some (shapeContext br p ?pt ?pt ?cx)\<rparr>"
      using drawPreviewShape_result [OF raw(1,2,3) sh, of br ?pt] raw(4) by simp
    have ss: "shapeState p (current ?cx) = shapeState p ((current c)\<lparr>transform := ?I\<rparr>)"
      by (simp add: shapeState_def setComposite_def setStrokeStyle_def setLineWidth_def c1)
    have st: "strokeShape br p (current ?cx) ?pt ?pt (bitmap ?cvx)
         = strokeShape br p ((current c)\<lparr>transform := ?I\<rparr>) ?pt ?pt (bitmap cv)"
      unfolding strokeShape_def ss by simp
    have cxs: "shapeContext br p ?pt ?pt ?cx =
        \<lparr> current = shapeState p ((current c)\<lparr>transform := ?I\<rparr>),
          savedStates = current c # savedStates c,
          path = (if tool p = Rectangle then path c
                  else shapePath (tool p) ?pt ?pt @ [ClosePath]) \<rparr>"
      unfolding shapeContext_def ss
      by (simp add: setComposite_def setStrokeStyle_def setLineWidth_def c1)
    have "drawPreviewShape br p ?pt ?raw = ?st'"
      unfolding res st cxs using assms(1,2)
      by (intro engine_eqI) simp_all
    then show ?thesis using down by simp
  qed
  show ?thesis
    using push c1 fill draw shape by (simp del: One_nat_def)
qed

theorem pointerDown_on_capture_failure_witness:
  "getImageData ((exampleCanvas threePixels)\<lparr>originClean := False\<rparr>) = None
   \<and> handlePointerDown exampleBrowser (exampleProps Fill ''#ff0000'' 0) (pointerAt 0)
        (taintedEngine threePixels)
       = Some (Uncaught ((taintedEngine threePixels)\<lparr>contextRef :=
            Some \<lparr> current = defaultState, savedStates = [defaultState, defaultState], path = [] \<rparr>\<rparr>))
   \<and> pixelAt threePixels (0, 0) = Some (255, 255, 255, 255)
   \<and> \<not> colorsMatch (255, 255, 255, 255) (hexToRgba ''#ff0000'') defaultTolerance
   \<and> handlePointerDown exampleBrowser (exampleProps Pencil ''#000000'' 0) (pointerAt 0)
        (taintedEngine whiteRow)
       = Some (Returned ((taintedEngine whiteRow)\<lparr>
            canvasRef := Some
              \<lparr> bitmap = \<lparr> data = [0, 0, 0, 255, 255, 255, 255, 255, 255, 255, 255, 255],
                            width = 3, height = 1 \<rparr>,
                originClean = False, pointerCapture = {1} \<rparr>,
            contextRef := Some
              \<lparr> current = defaultState\<lparr>lineWidth := 10, strokeStyle := ''#000000''\<rparr>,
                savedStates = [defaultState], path = [MoveTo 0 0, LineTo 0 0] \<rparr>,
            isDrawingRef := True\<rparr>))"
proof -
  let ?f = "exampleProps Fill ''#ff0000'' 0" and ?q = "exampleProps Pencil ''#000000'' 0"
  have h: "canvasRef (taintedEngine threePixels) = Some ((exampleCanvas threePixels)\<lparr>originClean := False\<rparr>)"
    "contextRef (taintedEngine threePixels) = Some defaultContext"
    "getImageData ((exampleCanvas threePixels)\<lparr>originClean := False\<rparr>) = None"
    by (simp_all add: taintedEngine_def getImageData_def)
  have k: "canvasRef (taintedEngine whiteRow) = Some ((exampleCanvas whiteRow)\<lparr>originClean := False\<rparr>)"
    "contextRef (taintedEngine whiteRow) = Some defaultContext"
    "getImageData ((exampleCanvas whiteRow)\<lparr>originClean := False\<rparr>) = None"
    by (simp_all add: taintedEngine_def getImageData_def)
  have "tool ?f = Fill" by (simp add: exampleProps_def)
  then have "handlePointerDown exampleBrowser ?f (pointerAt 0) (taintedEngine threePixels)
       = Some (Uncaught ((taintedEngine threePixels)\<lparr>contextRef :=
            Some \<lparr> current = defaultState, savedStates = [defaultState, defaultState], path = [] \<rparr>\<rparr>))"
    using pointerDown_on_capture_failure [OF h, of ?f exampleBrowser "pointerAt 0"]
    by (simp add: defaultContext_def defaultState_def)
  moreover have "pixelAt threePixels (0, 0) = Some (255, 255, 255, 255)"
    by (simp add: pixelAt_def readPixel_def threePixels_def)
  moreover have "\<not> colorsMatch (255, 255, 255, 255) (hexToRgba ''#ff0000'') defaultTolerance"
    by (simp add: hexToRgba_red colorsMatch_def defaultTolerance_def)
  moreover have "tool ?q = Pencil \<or> tool ?q = Eraser" by (simp add: exampleProps_def)
  then have "handlePointerDown exampleBrowser ?q (pointerAt 0) (taintedEngine whiteRow)
       = Some (Returned ((taintedEngine whiteRow)\<lparr>
            canvasRef := Some
              \<lparr> bitmap = \<lparr> data = [0, 0, 0, 255, 255, 255, 255, 255, 255, 255, 255, 255],
                            width = 3, height = 1 \<rparr>,
                originClean = False, pointerCapture = {1} \<rparr>,
            contextRef := Some
              \<lparr> current = defaultState\<lparr>lineWidth := 10, strokeStyle := ''#000000''\<rparr>,
                savedStates = [defaultState], path = [MoveTo 0 0, LineTo 0 0] \<rparr>,
            isDrawingRef := True\<rparr>))"
    using pointerDown_on_capture_failure [OF k, of ?q exampleBrowser "pointerAt 0"]
    by (simp add: defaultContext_def defaultState_def example_defs raster_defs)
  ultimately show ?thesis using h(3) by blast
qed

end
